theory Spec2Isabelle
  imports Complex_Main "HOL-Library.Sublist"
begin

section \<open>Python strings and dictionaries\<close>

text \<open>
  A Python \<open>str\<close> is a sequence of Unicode code points. A code point is a natural
  number and a string is a list of them, so that the three private-use characters
  U+E000..U+E002 of the tokenizer are ordinary characters. \<open>ascii\<close> reads an ASCII
  literal as such a string.
\<close>

type_synonym codepoint = nat
type_synonym ustr = "codepoint list"

definition ascii :: "string \<Rightarrow> ustr" where
  "ascii s = map of_char s"

text \<open>The characters \<open>str.split()\<close> and \<open>str.strip()\<close> treat as whitespace
  (those for which \<open>str.isspace\<close> holds).\<close>

definition is_space :: "codepoint \<Rightarrow> bool" where
  "is_space c \<longleftrightarrow>
     (9 \<le> c \<and> c \<le> 13) \<or> (28 \<le> c \<and> c \<le> 32) \<or> c = 133 \<or> c = 160 \<or> c = 5760 \<or>
     (8192 \<le> c \<and> c \<le> 8202) \<or> c = 8232 \<or> c = 8233 \<or> c = 8239 \<or> c = 8287 \<or> c = 12288"

text \<open>\<open>s.split()\<close>: the maximal runs of non-whitespace characters, in order.
  \<open>split_from cur s\<close> carries the word read so far.\<close>

fun split_from :: "ustr \<Rightarrow> ustr \<Rightarrow> ustr list" where
  "split_from cur [] = (if cur = [] then [] else [cur])"
| "split_from cur (c # cs) =
     (if is_space c then (if cur = [] then split_from [] cs else cur # split_from [] cs)
      else split_from (cur @ [c]) cs)"

definition str_split :: "ustr \<Rightarrow> ustr list" where
  "str_split s = split_from [] s"

text \<open>\<open>sep.join(xs)\<close>.\<close>

fun str_join :: "ustr \<Rightarrow> ustr list \<Rightarrow> ustr" where
  "str_join sep [] = []"
| "str_join sep [x] = x"
| "str_join sep (x # y # ys) = x @ sep @ str_join sep (y # ys)"

text \<open>\<open>s.replace(old, new)\<close>: the non-overlapping occurrences of \<open>old\<close>, found from
  left to right, are replaced by \<open>new\<close>. With an empty \<open>old\<close> Python puts \<open>new\<close>
  before every character and at the end.\<close>

fun str_replace :: "ustr \<Rightarrow> ustr \<Rightarrow> ustr \<Rightarrow> ustr" where
  "str_replace [] new s = new @ concat (map (\<lambda>c. c # new) s)"
| "str_replace (a # old) new [] = []"
| "str_replace (a # old) new (c # cs) =
     (if prefix (a # old) (c # cs) then new @ str_replace (a # old) new (drop (length old) cs)
      else c # str_replace (a # old) new cs)"

text \<open>\<open>s.strip()\<close>.\<close>

definition str_strip :: "ustr \<Rightarrow> ustr" where
  "str_strip s = rev (dropWhile is_space (rev (dropWhile is_space s)))"

text \<open>
  A \<open>dict\<close> keeps its keys in insertion order, and the order decides \<open>max\<close> and
  \<open>most_common\<close> on ties: a dictionary is an association list with distinct keys.
  \<open>dict_set\<close> is \<open>d[k] = v\<close>: an existing key keeps its place, a new key goes last.
\<close>

type_synonym ('k, 'v) dict = "('k \<times> 'v) list"

fun dict_set :: "'k \<Rightarrow> 'v \<Rightarrow> ('k, 'v) dict \<Rightarrow> ('k, 'v) dict" where
  "dict_set k v [] = [(k, v)]"
| "dict_set k v (p # ps) = (if fst p = k then (k, v) # ps else p # dict_set k v ps)"

text \<open>\<open>d.get(k, dflt)\<close>; for a \<open>Counter\<close> and a \<open>defaultdict(int)\<close>, \<open>d[k]\<close> is
  \<open>dict_get d k 0\<close> (the zero entry a \<open>defaultdict\<close> stores on such a read changes
  no later read).\<close>

definition dict_get :: "('k, 'v) dict \<Rightarrow> 'k \<Rightarrow> 'v \<Rightarrow> 'v" where
  "dict_get d k dflt = (case map_of d k of None \<Rightarrow> dflt | Some v \<Rightarrow> v)"

text \<open>\<open>c[k] += n\<close> on a \<open>Counter\<close>.\<close>

definition counter_add :: "'k \<Rightarrow> int \<Rightarrow> ('k, int) dict \<Rightarrow> ('k, int) dict" where
  "counter_add k n c = dict_set k (dict_get c k 0 + n) c"

text \<open>\<open>Counter(xs)\<close>.\<close>

definition Counter :: "'k list \<Rightarrow> ('k, int) dict" where
  "Counter xs = fold (\<lambda>x c. counter_add x 1 c) xs []"

text \<open>A dictionary comprehension \<open>{k: v for ...}\<close> over the pairs \<open>kvs\<close>: a key met
  again overwrites the value and keeps the first place.\<close>

definition dict_of :: "('k \<times> 'v) list \<Rightarrow> ('k, 'v) dict" where
  "dict_of kvs = fold (\<lambda>(k, v) d. dict_set k v d) kvs []"

text \<open>\<open>c.most_common()\<close> sorts the items by decreasing count, equal counts in
  insertion order; \<open>c.most_common(n)\<close> is its first \<open>n\<close> items.\<close>

definition most_common :: "('k, int) dict \<Rightarrow> ('k \<times> int) list" where
  "most_common c = sort_key (\<lambda>kv. - snd kv) c"

definition most_common_n :: "int \<Rightarrow> ('k, int) dict \<Rightarrow> ('k \<times> int) list" where
  "most_common_n n c = take (nat n) (most_common c)"

text \<open>\<open>max(d, key=d.get)\<close> on a non-empty dictionary with first item \<open>p\<close>: the first
  key, in insertion order, whose value is the largest.\<close>

definition max_key :: "('k \<times> int) \<Rightarrow> ('k, int) dict \<Rightarrow> 'k" where
  "max_key p ps = fst (fold (\<lambda>kv best. if snd best < snd kv then kv else best) ps p)"

section \<open>The BPE tokenizer (backend/bpe_tokenizer.py)\<close>

definition EOS_CHAR :: codepoint where "EOS_CHAR = 57344"
definition EOP_CHAR :: codepoint where "EOP_CHAR = 57345"
definition EOT_CHAR :: codepoint where "EOT_CHAR = 57346"

definition EOW :: ustr where "EOW = ascii ''</w>''"

definition SPACE :: ustr where "SPACE = [32]"

record BPETokenizer =
  vocab_size :: int
  vocab :: "(ustr, int) dict"
  merges :: "(ustr \<times> ustr) list"

text \<open>\<open>BPETokenizer(vocab_size)\<close>.\<close>

definition init_tokenizer :: "int \<Rightarrow> BPETokenizer" where
  "init_tokenizer n = \<lparr>vocab_size = n, vocab = [], merges = []\<rparr>"

definition special_tokens :: "(ustr, int) dict" where
  "special_tokens =
     [(ascii ''<PAD>'', 0), (ascii ''<UNK>'', 1), ([EOS_CHAR], 2), ([EOP_CHAR], 3), ([EOT_CHAR], 4)]"

definition legacy_special_aliases :: "(ustr, ustr) dict" where
  "legacy_special_aliases =
     [(ascii ''<EOS>'', [EOS_CHAR]), (ascii ''<EOP>'', [EOP_CHAR]), (ascii ''<EOT>'', [EOT_CHAR])]"

text \<open>\<open>_get_pair_stats\<close>: every adjacent pair of symbols of every word, weighted by the
  word's frequency.\<close>

definition get_pair_stats :: "(ustr, int) dict \<Rightarrow> (ustr \<times> ustr, int) dict" where
  "get_pair_stats words =
     fold (\<lambda>(w, freq) pairs.
             let syms = str_split w
             in fold (\<lambda>pr ps. counter_add pr freq ps) (zip syms (tl syms)) pairs)
          words []"

text \<open>\<open>_merge_vocab\<close>: a textual replacement in every key.\<close>

definition merge_vocab :: "ustr \<times> ustr \<Rightarrow> (ustr, int) dict \<Rightarrow> (ustr, int) dict" where
  "merge_vocab pair words =
     (let bigram = fst pair @ SPACE @ snd pair;
          repl = fst pair @ snd pair
      in dict_of (map (\<lambda>(w, freq). (str_replace bigram repl w, freq)) words))"

text \<open>The merge loop of \<open>train\<close>, \<open>n\<close> rounds left: it stops early when no pair is left.\<close>

fun merge_loop ::
  "nat \<Rightarrow> (ustr, int) dict \<Rightarrow> (ustr \<times> ustr) list \<Rightarrow> (ustr, int) dict \<times> (ustr \<times> ustr) list" where
  "merge_loop 0 vocab_words ms = (vocab_words, ms)"
| "merge_loop (Suc n) vocab_words ms =
     (case get_pair_stats vocab_words of
        [] \<Rightarrow> (vocab_words, ms)
      | p # ps \<Rightarrow>
          (let best = max_key p ps
           in merge_loop n (merge_vocab best vocab_words) (ms @ [best])))"

text \<open>The weighted frequency of every symbol of every word (\<open>sym_freq\<close> and
  \<open>token_freq\<close> of \<open>train\<close>).\<close>

definition symbol_freq :: "(ustr, int) dict \<Rightarrow> (ustr, int) dict" where
  "symbol_freq words =
     fold (\<lambda>(w, freq) c. fold (\<lambda>s c'. counter_add s freq c') (str_split w) c) words []"

text \<open>The last loop of \<open>train\<close>, over the tokens by decreasing frequency; the state is
  \<open>(self.vocab, next_id, slots)\<close>.\<close>

fun build_vocab ::
  "int \<Rightarrow> ustr list \<Rightarrow> (ustr, int) dict \<times> int \<times> int \<Rightarrow> (ustr, int) dict \<times> int \<times> int" where
  "build_vocab vsize [] st = st"
| "build_vocab vsize (tok # toks) (voc, next_id, slots) =
     (let st' = (if tok \<notin> fst ` set voc \<and> 0 < slots
                 then (dict_set tok next_id voc, next_id + 1, slots - 1)
                 else (voc, next_id, slots))
      in if vsize \<le> int (length (fst st')) then st' else build_vocab vsize toks st')"

text \<open>\<open>train\<close>, on the text of the corpus file. The set \<open>symbols\<close> is kept as a list
  without duplicates: the code reads only its size.\<close>

definition train :: "BPETokenizer \<Rightarrow> ustr \<Rightarrow> BPETokenizer" where
  "train self corpus =
     (let word_freqs = Counter (str_split corpus);
          vocab_words0 = dict_of (map (\<lambda>(w, freq).
                            (str_join SPACE (map (\<lambda>c. [c]) w) @ SPACE @ EOW, freq)) word_freqs);
          symbols0 = remdups (concat (map (\<lambda>(w, freq). str_split w) vocab_words0));
          available = vocab_size self - int (length special_tokens);
          (vocab_words1, symbols1) =
            (if available \<le> int (length symbols0) then
               (let sym_freq = symbol_freq vocab_words0;
                    base_vocab_size = min (int (length symbols0)) (max 1 (available - 50));
                    kept = map fst (most_common_n base_vocab_size sym_freq)
                in (filter (\<lambda>(w, freq). list_all (\<lambda>s. s \<in> set kept) (str_split w)) vocab_words0,
                    kept))
             else (vocab_words0, symbols0));
          num_merges0 = available - int (length symbols1);
          num_merges = (if num_merges0 \<le> 0 then 1 else num_merges0);
          (vocab_words2, ms) = merge_loop (nat num_merges) vocab_words1 (merges self);
          token_freq = symbol_freq vocab_words2;
          slots = vocab_size self - int (length special_tokens);
          (voc, next_id, slots') =
            build_vocab (vocab_size self) (map fst (most_common token_freq))
              (special_tokens, int (length special_tokens), slots)
      in self\<lparr>vocab := voc, merges := ms\<rparr>)"

text \<open>\<open>_separate_specials\<close>.\<close>

definition separate_specials :: "ustr \<Rightarrow> ustr" where
  "separate_specials text0 =
     (let text1 = fold (\<lambda>(legacy, ch) t. str_replace legacy ch t) legacy_special_aliases text0
      in fold (\<lambda>ch t. str_replace [ch] (SPACE @ [ch] @ SPACE) t)
           [EOS_CHAR, EOP_CHAR, EOT_CHAR] text1)"

text \<open>\<open>encode_word\<close>.\<close>

definition encode_word :: "BPETokenizer \<Rightarrow> ustr \<Rightarrow> ustr list" where
  "encode_word self word =
     str_split (fold (\<lambda>(a, b) w. str_replace (a @ SPACE @ b) (a @ b) w) (merges self)
                  (str_join SPACE (map (\<lambda>c. [c]) word) @ SPACE @ EOW))"

text \<open>\<open>encode\<close>.\<close>

definition encode :: "BPETokenizer \<Rightarrow> ustr \<Rightarrow> int list" where
  "encode self text0 =
     concat (map (\<lambda>w0.
        let w = dict_get legacy_special_aliases w0 w0
        in case map_of special_tokens w of
             Some i \<Rightarrow> [i]
           | None \<Rightarrow> map (\<lambda>tok. dict_get (vocab self) tok (dict_get special_tokens (ascii ''<UNK>'') 1))
                       (encode_word self w))
       (str_split (separate_specials text0)))"

text \<open>\<open>decode\<close>. The rendering of the end of a sentence is the three characters the
  file holds: U+00DB, U+201D and a space.\<close>

definition id_to_token :: "(ustr, int) dict \<Rightarrow> (int, ustr) dict" where
  "id_to_token voc = dict_of (map (\<lambda>(k, v). (v, k)) voc)"

definition decode :: "BPETokenizer \<Rightarrow> int list \<Rightarrow> ustr" where
  "decode self token_ids =
     (let inv = id_to_token (vocab self);
          toks = map (\<lambda>i. dict_get inv i []) token_ids;
          text1 = str_replace EOW SPACE (concat toks);
          text2 = str_replace [EOS_CHAR] [219, 8221, 32] text1;
          text3 = str_replace [EOP_CHAR] [10, 10] text2;
          text4 = str_replace [EOT_CHAR] [] text3
      in str_join SPACE (str_split text4))"

section \<open>The trigram language model (backend/trigram_language_model.py)\<close>

datatype error = ValueError

record TrigramLanguageModel =
  unigram_counts :: "(int, int) dict"
  bigram_counts :: "(int, (int, int) dict) dict"
  trigram_counts :: "(int \<times> int, (int, int) dict) dict"
  total_unigrams :: int
  total_bigrams :: "(int, int) dict"
  total_trigrams :: "(int \<times> int, int) dict"

definition lambda1 :: real where "lambda1 = 1 / 10"
definition lambda2 :: real where "lambda2 = 3 / 10"
definition lambda3 :: real where "lambda3 = 6 / 10"

definition pad_id :: int where "pad_id = 0"
definition unk_id :: int where "unk_id = 1"
definition eos_id :: int where "eos_id = 2"
definition eop_id :: int where "eop_id = 3"
definition eot_id :: int where "eot_id = 4"

text \<open>\<open>TrigramLanguageModel()\<close>: empty tables.\<close>

definition init_model :: TrigramLanguageModel where
  "init_model = \<lparr>unigram_counts = [], bigram_counts = [], trigram_counts = [],
     total_unigrams = 0, total_bigrams = [], total_trigrams = []\<rparr>"

text \<open>\<open>TrigramLanguageModel.train\<close>: the three counting loops. \<open>d[k][w] += 1\<close> on a
  \<open>defaultdict(Counter)\<close> is \<open>nested_add\<close>.\<close>

definition nested_add :: "'k \<Rightarrow> int \<Rightarrow> ('k, (int, int) dict) dict \<Rightarrow> ('k, (int, int) dict) dict" where
  "nested_add k w d = dict_set k (counter_add w 1 (dict_get d k [])) d"

definition lm_train :: "TrigramLanguageModel \<Rightarrow> int list \<Rightarrow> TrigramLanguageModel" where
  "lm_train self token_ids =
     (let (uc, tu) = fold (\<lambda>t (uc, tu). (counter_add t 1 uc, tu + 1)) token_ids ([], 0);
          (bc, tb) = fold (\<lambda>(w1, w2) (bc, tb). (nested_add w1 w2 bc, counter_add w1 1 tb))
                       (zip token_ids (tl token_ids)) ([], []);
          (tc, tt) = fold (\<lambda>(w1, w2, w3) (tc, tt).
                             (nested_add (w1, w2) w3 tc, counter_add (w1, w2) 1 tt))
                       (zip token_ids (zip (tl token_ids) (tl (tl token_ids)))) ([], [])
      in self\<lparr>unigram_counts := uc, bigram_counts := bc, trigram_counts := tc,
              total_unigrams := tu, total_bigrams := tb, total_trigrams := tt\<rparr>)"

text \<open>\<open>_p1\<close>, \<open>_p2\<close>, \<open>_p3\<close> and \<open>get_interpolated_prob\<close>. The quotients and the
  weighted sum are taken in the real numbers.\<close>

definition p1 :: "TrigramLanguageModel \<Rightarrow> int \<Rightarrow> real" where
  "p1 self w =
     (if total_unigrams self = 0 then 0
      else real_of_int (dict_get (unigram_counts self) w 0) / real_of_int (total_unigrams self))"

definition p2 :: "TrigramLanguageModel \<Rightarrow> int \<Rightarrow> int \<Rightarrow> real" where
  "p2 self w1 w2 =
     (let denom = dict_get (total_bigrams self) w1 0
      in if denom = 0 then 0
         else real_of_int (dict_get (dict_get (bigram_counts self) w1 []) w2 0) / real_of_int denom)"

definition p3 :: "TrigramLanguageModel \<Rightarrow> int \<Rightarrow> int \<Rightarrow> int \<Rightarrow> real" where
  "p3 self w1 w2 w3 =
     (let ctx = (w1, w2);
          denom = dict_get (total_trigrams self) ctx 0
      in if denom = 0 then 0
         else real_of_int (dict_get (dict_get (trigram_counts self) ctx []) w3 0) / real_of_int denom)"

definition get_interpolated_prob :: "TrigramLanguageModel \<Rightarrow> int \<Rightarrow> int \<Rightarrow> int \<Rightarrow> real" where
  "get_interpolated_prob self w1 w2 w3 =
     lambda1 * p1 self w3 + lambda2 * p2 self w2 w3 + lambda3 * p3 self w1 w2 w3"

text \<open>The candidate set of \<open>generate_next_token\<close> after the two \<open>discard\<close>s, as a
  list without duplicates.\<close>

definition candidates :: "TrigramLanguageModel \<Rightarrow> int \<times> int \<Rightarrow> int list" where
  "candidates self context =
     (let c1 = (case map_of (trigram_counts self) context of None \<Rightarrow> [] | Some d \<Rightarrow> map fst d);
          c2 = (case map_of (bigram_counts self) (snd context) of None \<Rightarrow> [] | Some d \<Rightarrow> map fst d);
          c3 = map fst (most_common_n 50 (unigram_counts self))
      in filter (\<lambda>t. t \<noteq> unk_id) (filter (\<lambda>t. t \<noteq> pad_id) (remdups (c1 @ c2 @ c3))))"

text \<open>\<open>np.random.choice(a, p=p)\<close>: it raises \<open>ValueError\<close> unless \<open>p\<close> is a
  probability vector as long as \<open>a\<close>, and returns the entry of \<open>a\<close> at the index the
  random source \<open>draw\<close> picks for \<open>p\<close>. The ids go through an integer array and
  \<open>int\<close> reads the entry back unchanged, which is so for ids of 64 bits, as those of
  the tokenizer are.\<close>

definition random_choice :: "(real list \<Rightarrow> nat) \<Rightarrow> int list \<Rightarrow> real list \<Rightarrow> error + int" where
  "random_choice draw a p =
     (if a = [] \<or> length p \<noteq> length a then Inl ValueError
      else if list_ex (\<lambda>x. x < 0) p then Inl ValueError
      else if sum_list p \<noteq> 1 then Inl ValueError
      else if length a \<le> draw p then Inl ValueError
      else Inr (a ! draw p))"

text \<open>\<open>generate_next_token\<close>.\<close>

definition generate_next_token ::
  "(real list \<Rightarrow> nat) \<Rightarrow> TrigramLanguageModel \<Rightarrow> int \<times> int \<Rightarrow> error + int" where
  "generate_next_token draw self context =
     (let tokens = candidates self context
      in if tokens = [] then Inr eos_id
         else
           (let probs = map (\<lambda>t. get_interpolated_prob self (fst context) (snd context) t) tokens;
                s = sum_list probs;
                probs' = (if s = 0 then replicate (length tokens) (1 / real (length tokens))
                          else map (\<lambda>p. p / s) probs)
            in random_choice draw tokens probs'))"

section \<open>The generation controller (backend/main.py)\<close>

datatype event = Error_event | Token_event ustr | Done_event

datatype status = GENERATING | STOPPED | RAISED error

text \<open>The variables of the loop of \<open>generate_tokens\<close>: \<open>events\<close> are the events
  yielded so far, \<open>status\<close> records a \<open>break\<close> or an exception of the sampler.\<close>

record gen_state =
  ctx :: "int list"
  generated_ids :: "int list"
  consecutive_special :: nat
  events :: "event list"
  status :: status

text \<open>\<open>(ctx[-2], ctx[-1])\<close>; the list always holds two ids or more.\<close>

definition ctx_pair :: "gen_state \<Rightarrow> int \<times> int" where
  "ctx_pair st = (ctx st ! (length (ctx st) - 2), ctx st ! (length (ctx st) - 1))"

text \<open>One pass through the body of the loop, \<open>r\<close> being what the call of
  \<open>model.generate_next_token\<close> gave.\<close>

definition gen_step :: "BPETokenizer \<Rightarrow> gen_state \<Rightarrow> error + int \<Rightarrow> gen_state" where
  "gen_step tokenizer st r =
     (case r of
        Inl e \<Rightarrow> st\<lparr>status := RAISED e\<rparr>
      | Inr next_id \<Rightarrow>
          if next_id = eot_id then st\<lparr>status := STOPPED\<rparr>
          else if next_id = pad_id \<or> next_id = unk_id then st
          else
            (let st1 = st\<lparr>generated_ids := generated_ids st @ [next_id],
                          ctx := ctx st @ [next_id]\<rparr>;
                 token_text = decode tokenizer [next_id]
             in if next_id = eos_id then
                  (let st2 = st1\<lparr>consecutive_special := consecutive_special st1 + 1\<rparr>
                   in if 3 \<le> consecutive_special st2 then st2\<lparr>status := STOPPED\<rparr>
                      else st2\<lparr>events := events st2 @ [Token_event [32, 1748]]\<rparr>)
                else if next_id = eop_id then
                  (let st2 = st1\<lparr>consecutive_special := consecutive_special st1 + 1\<rparr>
                   in if 3 \<le> consecutive_special st2 then st2\<lparr>status := STOPPED\<rparr>
                      else st2\<lparr>events := events st2 @ [Token_event [10, 10]]\<rparr>)
                else
                  (let st2 = st1\<lparr>consecutive_special := 0\<rparr>
                   in if str_strip token_text \<noteq> []
                      then st2\<lparr>events := events st2 @ [Token_event (SPACE @ str_strip token_text)]\<rparr>
                      else st2)))"

text \<open>\<open>for step in range(max_length)\<close> with \<open>n\<close> passes left; \<open>sample step c\<close> is
  what the sampler gives at that step for the context \<open>c\<close>.\<close>

fun gen_loop ::
  "(nat \<Rightarrow> int \<times> int \<Rightarrow> error + int) \<Rightarrow> BPETokenizer \<Rightarrow> nat \<Rightarrow> nat \<Rightarrow> gen_state \<Rightarrow> gen_state" where
  "gen_loop sample tokenizer 0 step st = st"
| "gen_loop sample tokenizer (Suc n) step st =
     (let st' = gen_step tokenizer st (sample step (ctx_pair st))
      in if status st' = GENERATING then gen_loop sample tokenizer n (Suc step) st' else st')"

text \<open>\<open>generate_tokens\<close>: the events the generator yields, and the exception it ends
  with if the sampler raised one.\<close>

definition initial_state :: "ustr \<Rightarrow> int list \<Rightarrow> gen_state" where
  "initial_state prefix_text prefix_ids =
     \<lparr>ctx = (if length prefix_ids = 0 then [eos_id, eos_id]
              else if length prefix_ids = 1 then [eos_id, prefix_ids ! 0]
              else drop (length prefix_ids - 2) prefix_ids),
      generated_ids = prefix_ids,
      consecutive_special = 0,
      events = [Token_event prefix_text],
      status = GENERATING\<rparr>"

definition generate_tokens ::
  "(nat \<Rightarrow> int \<times> int \<Rightarrow> error + int) \<Rightarrow> TrigramLanguageModel \<Rightarrow> BPETokenizer \<Rightarrow> ustr \<Rightarrow> int
     \<Rightarrow> event list \<times> error option" where
  "generate_tokens sample model tokenizer prefix_text max_length =
     (if total_unigrams model = 0 then ([Error_event], None)
      else
        (let prefix_ids = encode tokenizer prefix_text;
             st = gen_loop sample tokenizer (nat max_length) 0 (initial_state prefix_text prefix_ids)
         in case status st of
              RAISED e \<Rightarrow> (events st, Some e)
            | _ \<Rightarrow> (events st @ [Done_event], None)))"

section \<open>The generation controller: skipped samples, stopping, the error event\<close>

lemma gen_step_skip:
  "x = pad_id \<or> x = unk_id \<Longrightarrow> gen_step tokenizer st (Inr x) = st"
  by (auto simp: gen_step_def pad_id_def unk_id_def eot_id_def)

text \<open>
  Claim C6. In a pass of the loop whose sampled id is PAD or UNK the controller changes
  nothing: the state after the pass is the state before it, so the context window, the
  accumulated ids and the yielded events are the same. The pass is still one of the
  \<open>max_length\<close> passes: the loop goes on with one pass less and the next step number.
\<close>

theorem pad_unk_sample_is_discarded:
  assumes "x = pad_id \<or> x = unk_id"
    and "status st = GENERATING"
    and "sample step (ctx_pair st) = Inr x"
  shows "gen_step tokenizer st (Inr x) = st \<and>
         ctx_pair (gen_step tokenizer st (Inr x)) = ctx_pair st \<and>
         generated_ids (gen_step tokenizer st (Inr x)) = generated_ids st \<and>
         events (gen_step tokenizer st (Inr x)) = events st \<and>
         gen_loop sample tokenizer (Suc n) step st = gen_loop sample tokenizer n (Suc step) st"
  using assms by (simp add: gen_step_skip)

theorem pad_unk_sample_is_discarded_witness:
  "gen_step (init_tokenizer 250) (initial_state [] []) (Inr 0) = initial_state [] [] \<and>
   ctx_pair (gen_step (init_tokenizer 250) (initial_state [] []) (Inr 0)) = ctx_pair (initial_state [] []) \<and>
   generated_ids (gen_step (init_tokenizer 250) (initial_state [] []) (Inr 0)) = generated_ids (initial_state [] []) \<and>
   events (gen_step (init_tokenizer 250) (initial_state [] []) (Inr 0)) = events (initial_state [] []) \<and>
   gen_loop (\<lambda>k c. Inr 0) (init_tokenizer 250) (Suc 2) 0 (initial_state [] [])
     = gen_loop (\<lambda>k c. Inr 0) (init_tokenizer 250) 2 (Suc 0) (initial_state [] [])"
proof -
  have a: "(0::int) = pad_id \<or> (0::int) = unk_id" by (simp add: pad_id_def)
  have b: "status (initial_state [] []) = GENERATING" by (simp add: initial_state_def)
  have c: "(\<lambda>(k::nat) (c::int \<times> int). (Inr 0 :: error + int)) 0 (ctx_pair (initial_state [] [])) = Inr 0"
    by simp
  show ?thesis by (rule pad_unk_sample_is_discarded [OF a b c])
qed

lemma gen_step_no_error_event:
  "Error_event \<notin> set (events st) \<Longrightarrow> Error_event \<notin> set (events (gen_step tokenizer st r))"
  by (auto simp: gen_step_def Let_def split: sum.splits)

lemma gen_loop_no_error_event:
  "Error_event \<notin> set (events st) \<Longrightarrow>
   Error_event \<notin> set (events (gen_loop sample tokenizer n step st))"
proof (induction n arbitrary: step st)
  case 0
  then show ?case by simp
next
  case (Suc n)
  then show ?case by (simp add: Let_def gen_step_no_error_event)
qed

text \<open>
  Claim C8. When the total unigram count of the model is 0, the generator yields the
  error event and nothing else, and ends without an exception. When the count is
  positive, no error event is among the events it yields.
\<close>

theorem model_not_loaded_is_one_error_event:
  "(total_unigrams model = 0 \<longrightarrow>
      generate_tokens sample model tokenizer prefix_text max_length = ([Error_event], None)) \<and>
   (0 < total_unigrams model \<longrightarrow>
      Error_event \<notin> set (fst (generate_tokens sample model tokenizer prefix_text max_length)))"
proof -
  have "Error_event \<notin> set (events (gen_loop sample tokenizer (nat max_length) 0
          (initial_state prefix_text (encode tokenizer prefix_text))))"
    by (rule gen_loop_no_error_event) (simp add: initial_state_def)
  then show ?thesis
    by (auto simp: generate_tokens_def Let_def split: status.splits)
qed

theorem model_not_loaded_is_one_error_event_witness:
  "generate_tokens (\<lambda>k c. Inr 2) init_model (init_tokenizer 250) (ascii ''ab'') 5 = ([Error_event], None) \<and>
   Error_event \<notin> set (fst (generate_tokens (\<lambda>k c. Inr 2) (init_model\<lparr>total_unigrams := 1\<rparr>)
                              (init_tokenizer 250) (ascii ''ab'') 5))"
proof -
  have z: "total_unigrams init_model = 0" by (simp add: init_model_def)
  have p: "0 < total_unigrams (init_model\<lparr>total_unigrams := 1\<rparr>)" by simp
  from model_not_loaded_is_one_error_event
         [of init_model "\<lambda>k c. Inr 2" "init_tokenizer 250" "ascii ''ab''" 5] z
  have a: "generate_tokens (\<lambda>k c. Inr 2) init_model (init_tokenizer 250) (ascii ''ab'') 5
             = ([Error_event], None)" by blast
  from model_not_loaded_is_one_error_event
         [of "init_model\<lparr>total_unigrams := 1\<rparr>" "\<lambda>k c. Inr 2" "init_tokenizer 250" "ascii ''ab''" 5] p
  have b: "Error_event \<notin> set (fst (generate_tokens (\<lambda>k c. Inr 2) (init_model\<lparr>total_unigrams := 1\<rparr>)
                              (init_tokenizer 250) (ascii ''ab'') 5))" by blast
  show ?thesis using a b by blast
qed

lemma gen_step_special:
  "x = eos_id \<or> x = eop_id \<Longrightarrow>
   gen_step tokenizer st (Inr x) =
     (if 2 \<le> consecutive_special st
      then st\<lparr>generated_ids := generated_ids st @ [x], ctx := ctx st @ [x],
              consecutive_special := Suc (consecutive_special st), status := STOPPED\<rparr>
      else st\<lparr>generated_ids := generated_ids st @ [x], ctx := ctx st @ [x],
              consecutive_special := Suc (consecutive_special st),
              events := events st @ [Token_event (if x = eos_id then [32, 1748] else [10, 10])]\<rparr>)"
  by (auto simp: gen_step_def Let_def eos_id_def eop_id_def eot_id_def pad_id_def unk_id_def)

lemma ctx_pair_cong: "ctx s = ctx s' \<Longrightarrow> ctx_pair s = ctx_pair s'"
  by (simp add: ctx_pair_def)

lemma gen_step_ordinary_state:
  "y \<noteq> eot_id \<Longrightarrow> y \<noteq> pad_id \<Longrightarrow> y \<noteq> unk_id \<Longrightarrow> y \<noteq> eos_id \<Longrightarrow> y \<noteq> eop_id \<Longrightarrow>
   gen_step tokenizer s (Inr y) =
     s\<lparr>generated_ids := generated_ids s @ [y], ctx := ctx s @ [y], consecutive_special := 0,
       events := events s @
         (if str_strip (decode tokenizer [y]) \<noteq> []
          then [Token_event (SPACE @ str_strip (decode tokenizer [y]))] else [])\<rparr>"
  by (simp add: gen_step_def Let_def)

lemma gen_loop_add:
  "status st = GENERATING \<Longrightarrow>
   gen_loop sample tokenizer (a + b) i st =
     (if status (gen_loop sample tokenizer a i st) = GENERATING
      then gen_loop sample tokenizer b (i + a) (gen_loop sample tokenizer a i st)
      else gen_loop sample tokenizer a i st)"
proof (induction a arbitrary: i st)
  case 0
  then show ?case by simp
next
  case (Suc a)
  show ?case
  proof (cases "status (gen_step tokenizer st (sample i (ctx_pair st))) = GENERATING")
    case True
    from Suc.IH [OF True, of "Suc i"] True show ?thesis by (simp add: Let_def)
  next
    case False
    then show ?thesis by (simp add: Let_def)
  qed
qed

lemma special_pass_stop:
  assumes "x = eos_id \<or> x = eop_id" and "sample i (ctx_pair st) = Inr x"
    and "2 \<le> consecutive_special st"
  shows "gen_loop sample tokenizer (Suc n) i st =
           st\<lparr>generated_ids := generated_ids st @ [x], ctx := ctx st @ [x],
              consecutive_special := Suc (consecutive_special st), status := STOPPED\<rparr>"
  using assms(2,3) by (simp add: Let_def gen_step_special [OF assms(1)])

lemma special_pass_continue:
  assumes "x = eos_id \<or> x = eop_id" and "sample i (ctx_pair st) = Inr x"
    and "consecutive_special st < 2" and "status st = GENERATING"
  shows "gen_loop sample tokenizer (Suc n) i st =
           gen_loop sample tokenizer n (Suc i)
             (st\<lparr>generated_ids := generated_ids st @ [x], ctx := ctx st @ [x],
                 consecutive_special := Suc (consecutive_special st),
                 events := events st @ [Token_event (if x = eos_id then [32, 1748] else [10, 10])]\<rparr>)"
  using assms(2,3,4) by (simp add: Let_def gen_step_special [OF assms(1)])

lemma three_specials_final_state:
  assumes g: "status st = GENERATING"
    and x0: "x0 = eos_id \<or> x0 = eop_id" and x1: "x1 = eos_id \<or> x1 = eop_id"
    and x2: "x2 = eos_id \<or> x2 = eop_id"
    and h0: "sample i (ctx_pair st) = Inr x0"
    and h1: "sample (Suc i) (ctx_pair (st\<lparr>ctx := ctx st @ [x0]\<rparr>)) = Inr x1"
    and h2: "sample (Suc (Suc i)) (ctx_pair (st\<lparr>ctx := ctx st @ [x0, x1]\<rparr>)) = Inr x2"
  shows "gen_loop sample tokenizer (Suc (Suc (Suc m))) i st =
           st\<lparr>generated_ids := generated_ids st @ take (max 1 (3 - consecutive_special st)) [x0, x1, x2],
              ctx := ctx st @ take (max 1 (3 - consecutive_special st)) [x0, x1, x2],
              consecutive_special := consecutive_special st + max 1 (3 - consecutive_special st),
              events := events st @
                map (\<lambda>x. Token_event (if x = eos_id then [32, 1748] else [10, 10]))
                  (take (max 1 (3 - consecutive_special st) - 1) [x0, x1]),
              status := STOPPED\<rparr>"
proof -
  let ?T = "\<lambda>x. Token_event (if x = eos_id then [32, 1748] else [10, 10])"
  consider (two) "2 \<le> consecutive_special st" | (one) "consecutive_special st = 1"
    | (zero) "consecutive_special st = 0" by linarith
  then show ?thesis
  proof cases
    case two
    then have k: "max 1 (3 - consecutive_special st) = 1" by simp
    have a: "gen_loop sample tokenizer (Suc (Suc (Suc m))) i st =
           st\<lparr>generated_ids := generated_ids st @ [x0], ctx := ctx st @ [x0],
              consecutive_special := Suc (consecutive_special st), status := STOPPED\<rparr>"
      by (rule special_pass_stop [where sample = sample and i = i and st = st and x = x0,
            OF x0 h0 two])
    show ?thesis unfolding k a by simp
  next
    case one
    define s1 where "s1 = st\<lparr>generated_ids := generated_ids st @ [x0], ctx := ctx st @ [x0],
                 consecutive_special := Suc (consecutive_special st),
                 events := events st @ [?T x0]\<rparr>"
    have c1: "ctx_pair s1 = ctx_pair (st\<lparr>ctx := ctx st @ [x0]\<rparr>)"
      by (rule ctx_pair_cong) (simp add: s1_def)
    have lt: "consecutive_special st < 2" by (simp add: one)
    have a: "gen_loop sample tokenizer (Suc (Suc (Suc m))) i st
               = gen_loop sample tokenizer (Suc (Suc m)) (Suc i) s1"
      unfolding s1_def
      by (rule special_pass_continue [where sample = sample and i = i and st = st and x = x0,
            OF x0 h0 lt g])
    have p1: "sample (Suc i) (ctx_pair s1) = Inr x1" by (simp add: c1 h1)
    have q1: "2 \<le> consecutive_special s1" by (simp add: s1_def one)
    have b: "gen_loop sample tokenizer (Suc (Suc m)) (Suc i) s1 =
           s1\<lparr>generated_ids := generated_ids s1 @ [x1], ctx := ctx s1 @ [x1],
              consecutive_special := Suc (consecutive_special s1), status := STOPPED\<rparr>"
      by (rule special_pass_stop [where sample = sample and i = "Suc i" and st = s1 and x = x1,
            OF x1 p1 q1])
    have k: "max 1 (3 - consecutive_special st) = 2" by (simp add: one)
    show ?thesis
      unfolding k a b by (simp add: s1_def one numeral_2_eq_2)
  next
    case zero
    define s1 where "s1 = st\<lparr>generated_ids := generated_ids st @ [x0], ctx := ctx st @ [x0],
                 consecutive_special := Suc (consecutive_special st),
                 events := events st @ [?T x0]\<rparr>"
    define s2 where "s2 = s1\<lparr>generated_ids := generated_ids s1 @ [x1], ctx := ctx s1 @ [x1],
                 consecutive_special := Suc (consecutive_special s1),
                 events := events s1 @ [?T x1]\<rparr>"
    have c1: "ctx_pair s1 = ctx_pair (st\<lparr>ctx := ctx st @ [x0]\<rparr>)"
      by (rule ctx_pair_cong) (simp add: s1_def)
    have c2: "ctx_pair s2 = ctx_pair (st\<lparr>ctx := ctx st @ [x0, x1]\<rparr>)"
      by (rule ctx_pair_cong) (simp add: s1_def s2_def)
    have g1: "status s1 = GENERATING" by (simp add: s1_def g)
    have lt: "consecutive_special st < 2" by (simp add: zero)
    have lt1: "consecutive_special s1 < 2" by (simp add: s1_def zero)
    have a: "gen_loop sample tokenizer (Suc (Suc (Suc m))) i st
               = gen_loop sample tokenizer (Suc (Suc m)) (Suc i) s1"
      unfolding s1_def
      by (rule special_pass_continue [where sample = sample and i = i and st = st and x = x0,
            OF x0 h0 lt g])
    have p1: "sample (Suc i) (ctx_pair s1) = Inr x1" by (simp add: c1 h1)
    have b: "gen_loop sample tokenizer (Suc (Suc m)) (Suc i) s1
               = gen_loop sample tokenizer (Suc m) (Suc (Suc i)) s2"
      unfolding s2_def
      by (rule special_pass_continue [where sample = sample and i = "Suc i" and st = s1 and x = x1,
            OF x1 p1 lt1 g1])
    have p2: "sample (Suc (Suc i)) (ctx_pair s2) = Inr x2" by (simp add: c2 h2)
    have q2: "2 \<le> consecutive_special s2" by (simp add: s1_def s2_def zero)
    have c: "gen_loop sample tokenizer (Suc m) (Suc (Suc i)) s2 =
           s2\<lparr>generated_ids := generated_ids s2 @ [x2], ctx := ctx s2 @ [x2],
              consecutive_special := Suc (consecutive_special s2), status := STOPPED\<rparr>"
      by (rule special_pass_stop [where sample = sample and i = "Suc (Suc i)" and st = s2 and x = x2,
            OF x2 p2 q2])
    have k: "max 1 (3 - consecutive_special st) = 3" by (simp add: zero)
    show ?thesis
      unfolding k a b c by (simp add: s1_def s2_def zero numeral_3_eq_3 numeral_2_eq_2)
  qed
qed


text \<open>
  Claim C5. Let the loop be running at step \<open>i\<close> with at least three passes left, and
  let the sampler give an end-of-sentence or end-of-paragraph id \<open>x0\<close> for the context
  at step \<open>i\<close>, \<open>x1\<close> for the context extended by \<open>x0\<close> at the next step and \<open>x2\<close>
  for the context extended by \<open>x0\<close> and \<open>x1\<close> at the step after. Let \<open>k\<close> be the
  number of specials the counter still lacks, \<open>3 - consecutive_special\<close> and at least 1
  (so \<open>k = 3\<close> when the counter is 0, as it is at the start and after every ordinary
  token). Then, whatever the remaining budget, the loop ends in exactly this state:
  STOPPED, the first \<open>k\<close> of the three ids appended to the generated ids and to the
  context, the counter raised by \<open>k\<close>, and one glyph event for each of the first
  \<open>k - 1\<close> ids only, so the special sample that brings the counter to 3 and every
  later pass yield nothing. If the state is the one the request reached after \<open>i\<close>
  passes, the generator yields the events of that state, these glyphs and then only the
  closing event, and raises nothing. One pass on an ordinary id (none of the five
  special ids) appends the id, yields its stripped text if there is any, and sets the
  counter back to 0.
\<close>

theorem three_consecutive_specials_stop_generation:
  assumes "status st = GENERATING" and "3 \<le> n"
    and "x0 = eos_id \<or> x0 = eop_id" and "x1 = eos_id \<or> x1 = eop_id"
    and "x2 = eos_id \<or> x2 = eop_id"
    and "sample i (ctx_pair st) = Inr x0"
    and "sample (Suc i) (ctx_pair (st\<lparr>ctx := ctx st @ [x0]\<rparr>)) = Inr x1"
    and "sample (Suc (Suc i)) (ctx_pair (st\<lparr>ctx := ctx st @ [x0, x1]\<rparr>)) = Inr x2"
  shows "gen_loop sample tokenizer n i st =
           st\<lparr>generated_ids := generated_ids st @ take (max 1 (3 - consecutive_special st)) [x0, x1, x2],
              ctx := ctx st @ take (max 1 (3 - consecutive_special st)) [x0, x1, x2],
              consecutive_special := consecutive_special st + max 1 (3 - consecutive_special st),
              events := events st @
                map (\<lambda>x. Token_event (if x = eos_id then [32, 1748] else [10, 10]))
                  (take (max 1 (3 - consecutive_special st) - 1) [x0, x1]),
              status := STOPPED\<rparr> \<and>
         (total_unigrams model \<noteq> 0 \<and>
          st = gen_loop sample tokenizer i 0 (initial_state prefix_text (encode tokenizer prefix_text)) \<and>
          nat max_length = i + n \<longrightarrow>
            generate_tokens sample model tokenizer prefix_text max_length =
              (events st @
               map (\<lambda>x. Token_event (if x = eos_id then [32, 1748] else [10, 10]))
                 (take (max 1 (3 - consecutive_special st) - 1) [x0, x1]) @
               [Done_event], None)) \<and>
         (\<forall>y s. y \<noteq> eot_id \<and> y \<noteq> pad_id \<and> y \<noteq> unk_id \<and> y \<noteq> eos_id \<and> y \<noteq> eop_id \<longrightarrow>
            gen_step tokenizer s (Inr y) =
              s\<lparr>generated_ids := generated_ids s @ [y], ctx := ctx s @ [y], consecutive_special := 0,
                events := events s @
                  (if str_strip (decode tokenizer [y]) \<noteq> []
                   then [Token_event (SPACE @ str_strip (decode tokenizer [y]))] else [])\<rparr>)"
proof -
  let ?F = "st\<lparr>generated_ids := generated_ids st @ take (max 1 (3 - consecutive_special st)) [x0, x1, x2],
              ctx := ctx st @ take (max 1 (3 - consecutive_special st)) [x0, x1, x2],
              consecutive_special := consecutive_special st + max 1 (3 - consecutive_special st),
              events := events st @
                map (\<lambda>x. Token_event (if x = eos_id then [32, 1748] else [10, 10]))
                  (take (max 1 (3 - consecutive_special st) - 1) [x0, x1]),
              status := STOPPED\<rparr>"
  from assms(2) have "\<exists>m. n = Suc (Suc (Suc m))"
    by (intro exI[of _ "n - 3"]) simp
  then obtain m where n: "n = Suc (Suc (Suc m))" ..
  have a: "gen_loop sample tokenizer n i st = ?F"
    unfolding n
    by (rule three_specials_final_state
          [where sample = sample and i = i and st = st and ?x0.0 = x0 and ?x1.0 = x1 and ?x2.0 = x2,
            OF assms(1) assms(3) assms(4) assms(5) assms(6) assms(7) assms(8)])
  have b: "generate_tokens sample model tokenizer prefix_text max_length =
              (events st @
               map (\<lambda>x. Token_event (if x = eos_id then [32, 1748] else [10, 10]))
                 (take (max 1 (3 - consecutive_special st) - 1) [x0, x1]) @
               [Done_event], None)"
    if t1: "total_unigrams model \<noteq> 0"
      and t2: "st = gen_loop sample tokenizer i 0 (initial_state prefix_text (encode tokenizer prefix_text))"
      and t3: "nat max_length = i + n"
  proof -
    let ?I = "initial_state prefix_text (encode tokenizer prefix_text)"
    have g0: "status ?I = GENERATING" by (simp add: initial_state_def)
    have g1: "status (gen_loop sample tokenizer i 0 ?I) = GENERATING"
      using assms(1) unfolding t2 [symmetric] .
    have "gen_loop sample tokenizer (i + n) 0 ?I =
            gen_loop sample tokenizer n (0 + i) (gen_loop sample tokenizer i 0 ?I)"
      unfolding gen_loop_add [where sample = sample and st = "?I", OF g0] using g1 by simp
    then have "gen_loop sample tokenizer (nat max_length) 0 ?I = gen_loop sample tokenizer n i st"
      unfolding t3 t2 [symmetric] by simp
    then have c: "gen_loop sample tokenizer (nat max_length) 0 ?I = ?F"
      unfolding a .
    show ?thesis
      unfolding generate_tokens_def Let_def c using t1 by simp
  qed
  have e: "\<forall>y s. y \<noteq> eot_id \<and> y \<noteq> pad_id \<and> y \<noteq> unk_id \<and> y \<noteq> eos_id \<and> y \<noteq> eop_id \<longrightarrow>
            gen_step tokenizer s (Inr y) =
              s\<lparr>generated_ids := generated_ids s @ [y], ctx := ctx s @ [y], consecutive_special := 0,
                events := events s @
                  (if str_strip (decode tokenizer [y]) \<noteq> []
                   then [Token_event (SPACE @ str_strip (decode tokenizer [y]))] else [])\<rparr>"
    by (simp add: gen_step_ordinary_state)
  from b have b': "total_unigrams model \<noteq> 0 \<and>
          st = gen_loop sample tokenizer i 0 (initial_state prefix_text (encode tokenizer prefix_text)) \<and>
          nat max_length = i + n \<longrightarrow>
            generate_tokens sample model tokenizer prefix_text max_length =
              (events st @
               map (\<lambda>x. Token_event (if x = eos_id then [32, 1748] else [10, 10]))
                 (take (max 1 (3 - consecutive_special st) - 1) [x0, x1]) @
               [Done_event], None)" by blast
  show ?thesis by (intro conjI) (rule a, rule b', rule e)
qed

theorem three_consecutive_specials_stop_generation_witness:
  "generate_tokens
     (\<lambda>k c. if k = 0 then Inr 7 else if snd c = 2 \<or> snd c = 7 then Inr 2 else Inr 7)
     (init_model\<lparr>total_unigrams := 1\<rparr>)
     \<lparr>vocab_size = 250, vocab = [([97], 7)], merges = []\<rparr> [] 6
     = ([Token_event [], Token_event [32, 97], Token_event [32, 1748], Token_event [32, 1748],
         Done_event], None) \<and>
   gen_loop
     (\<lambda>k c. if k = 0 then Inr 7 else if snd c = 2 \<or> snd c = 7 then Inr 2 else Inr 7)
     \<lparr>vocab_size = 250, vocab = [([97], 7)], merges = []\<rparr> 5 (Suc 0)
     \<lparr>ctx = [2, 2, 7], generated_ids = [7], consecutive_special = 0,
      events = [Token_event [], Token_event [32, 97]], status = GENERATING\<rparr>
     = \<lparr>ctx = [2, 2, 7, 2, 2, 2], generated_ids = [7, 2, 2, 2], consecutive_special = 3,
        events = [Token_event [], Token_event [32, 97], Token_event [32, 1748],
                  Token_event [32, 1748]],
        status = STOPPED\<rparr> \<and>
   gen_step \<lparr>vocab_size = 250, vocab = [([97], 7)], merges = []\<rparr>
     \<lparr>ctx = [2, 2], generated_ids = [], consecutive_special = 2, events = [],
      status = GENERATING\<rparr> (Inr 7)
     = \<lparr>ctx = [2, 2, 7], generated_ids = [7], consecutive_special = 0,
        events = [Token_event [32, 97]], status = GENERATING\<rparr>"
proof -
  let ?S = "\<lambda>(k::nat) (c::int \<times> int).
              if k = 0 then (Inr 7 :: error + int) else if snd c = 2 \<or> snd c = 7 then Inr 2 else Inr 7"
  let ?T = "\<lparr>vocab_size = 250, vocab = [([97], 7)], merges = []\<rparr>"
  let ?M = "init_model\<lparr>total_unigrams := 1\<rparr>"
  let ?st = "\<lparr>ctx = [2, 2, 7], generated_ids = [7], consecutive_special = 0,
              events = [Token_event [], Token_event [32, 97]], status = GENERATING\<rparr>"
  let ?s = "\<lparr>ctx = [2, 2], generated_ids = [], consecutive_special = 2, events = [],
              status = GENERATING\<rparr>"
  have g: "status ?st = GENERATING" by simp
  have n: "(3::nat) \<le> 5" by simp
  have x: "(2::int) = eos_id \<or> (2::int) = eop_id" by (simp add: eos_id_def)
  have h0: "?S (Suc 0) (ctx_pair ?st) = Inr 2" by (simp add: ctx_pair_def)
  have h1: "?S (Suc (Suc 0)) (ctx_pair (?st\<lparr>ctx := ctx ?st @ [2]\<rparr>)) = Inr 2"
    by (simp add: ctx_pair_def)
  have h2: "?S (Suc (Suc (Suc 0))) (ctx_pair (?st\<lparr>ctx := ctx ?st @ [2, 2]\<rparr>)) = Inr 2"
    by (simp add: ctx_pair_def)
  note t = three_consecutive_specials_stop_generation
             [where sample = "?S" and n = 5 and i = "Suc 0" and st = "?st"
                and ?x0.0 = 2 and ?x1.0 = 2 and ?x2.0 = 2
                and tokenizer = "?T" and model = "?M"
                and prefix_text = "[]" and max_length = 6, OF g n x x x h0 h1 h2]
  have enc: "encode ?T [] = []"
    by (simp add: encode_def separate_specials_def legacy_special_aliases_def ascii_def
          str_split_def SPACE_def)
  have dec: "decode ?T [7] = [97]"
    by (simp add: decode_def id_to_token_def dict_of_def dict_get_def EOW_def ascii_def SPACE_def
          EOS_CHAR_def EOP_CHAR_def EOT_CHAR_def str_split_def is_space_def Let_def)
  have strip: "str_strip [97] = [97]" by (simp add: str_strip_def is_space_def)
  have q: "(7::int) \<noteq> eot_id \<and> 7 \<noteq> pad_id \<and> 7 \<noteq> unk_id \<and> 7 \<noteq> eos_id \<and> 7 \<noteq> eop_id"
    by (simp add: eot_id_def pad_id_def unk_id_def eos_id_def eop_id_def)
  have st: "?st = gen_loop ?S ?T (Suc 0) 0 (initial_state [] (encode ?T []))"
    using q by (simp add: enc initial_state_def ctx_pair_def gen_step_def Let_def dec strip
          SPACE_def eos_id_def)
  have p: "total_unigrams ?M \<noteq> 0 \<and>
           ?st = gen_loop ?S ?T (Suc 0) 0 (initial_state [] (encode ?T [])) \<and>
           nat 6 = Suc 0 + 5"
    using st by simp
  from t have c1: "gen_loop ?S ?T 5 (Suc 0) ?st =
      \<lparr>ctx = [2, 2, 7, 2, 2, 2], generated_ids = [7, 2, 2, 2], consecutive_special = 3,
        events = [Token_event [], Token_event [32, 97], Token_event [32, 1748],
                  Token_event [32, 1748]],
        status = STOPPED\<rparr>"
    by (simp add: eos_id_def)
  note r = t [THEN conjunct2, THEN conjunct1, THEN mp, OF p]
  from r have c2: "generate_tokens ?S ?M ?T [] 6 =
      ([Token_event [], Token_event [32, 97], Token_event [32, 1748], Token_event [32, 1748],
         Done_event], None)"
    by (simp add: eos_id_def)
  from t have "\<forall>y s. y \<noteq> eot_id \<and> y \<noteq> pad_id \<and> y \<noteq> unk_id \<and> y \<noteq> eos_id \<and> y \<noteq> eop_id \<longrightarrow>
            gen_step ?T s (Inr y) =
              s\<lparr>generated_ids := generated_ids s @ [y], ctx := ctx s @ [y], consecutive_special := 0,
                events := events s @
                  (if str_strip (decode ?T [y]) \<noteq> []
                   then [Token_event (SPACE @ str_strip (decode ?T [y]))] else [])\<rparr>"
    by (elim conjE)
  with q have "gen_step ?T ?s (Inr 7) =
              ?s\<lparr>generated_ids := generated_ids ?s @ [7], ctx := ctx ?s @ [7], consecutive_special := 0,
                events := events ?s @
                  (if str_strip (decode ?T [7]) \<noteq> []
                   then [Token_event (SPACE @ str_strip (decode ?T [7]))] else [])\<rparr>"
    by blast
  then have c3: "gen_step ?T ?s (Inr 7) =
      \<lparr>ctx = [2, 2, 7], generated_ids = [7], consecutive_special = 0,
        events = [Token_event [32, 97]], status = GENERATING\<rparr>"
    by (simp add: dec strip SPACE_def)
  show ?thesis by (intro conjI) (rule c2, rule c1, rule c3)
qed

section \<open>The trained vocabulary: its size and the special ids\<close>

lemma dict_set_new: "k \<notin> fst ` set d \<Longrightarrow> dict_set k v d = d @ [(k, v)]"
  by (induction d) auto

lemma build_vocab_extends:
  "\<exists>ext. fst (build_vocab V toks (voc, nid, slots)) = voc @ ext \<and>
         int (length ext) \<le> max slots 0 \<and> (\<forall>kv \<in> set ext. nid \<le> snd kv) \<and>
         (distinct (map fst voc) \<longrightarrow> distinct (map fst (voc @ ext)))"
proof (induction toks arbitrary: voc nid slots)
  case Nil
  show ?case by simp
next
  case (Cons tok toks)
  show ?case
  proof (cases "tok \<notin> fst ` set voc \<and> 0 < slots")
    case True
    then have ds: "dict_set tok nid voc = voc @ [(tok, nid)]" by (simp add: dict_set_new)
    show ?thesis
    proof (cases "V \<le> int (length (voc @ [(tok, nid)]))")
      case stop: True
      have "fst (build_vocab V (tok # toks) (voc, nid, slots)) = voc @ [(tok, nid)]"
        using True stop by (simp add: ds)
      moreover have "int (length [(tok, nid)]) \<le> max slots 0" using True by simp
      moreover have "distinct (map fst voc) \<longrightarrow> distinct (map fst (voc @ [(tok, nid)]))"
        using True by auto
      ultimately show ?thesis by (intro exI[of _ "[(tok, nid)]"]) simp
    next
      case go: False
      from Cons.IH [of "voc @ [(tok, nid)]" "nid + 1" "slots - 1"]
      obtain ext where e: "fst (build_vocab V toks (voc @ [(tok, nid)], nid + 1, slots - 1))
                             = (voc @ [(tok, nid)]) @ ext"
        and l: "int (length ext) \<le> max (slots - 1) 0"
        and v: "\<forall>kv \<in> set ext. nid + 1 \<le> snd kv"
        and d: "distinct (map fst (voc @ [(tok, nid)])) \<longrightarrow>
                  distinct (map fst ((voc @ [(tok, nid)]) @ ext))"
        by blast
      have "fst (build_vocab V (tok # toks) (voc, nid, slots)) = voc @ ((tok, nid) # ext)"
        using True go e by (simp add: ds)
      moreover have "int (length ((tok, nid) # ext)) \<le> max slots 0" using True l by simp
      moreover have "\<forall>kv \<in> set ((tok, nid) # ext). nid \<le> snd kv" using v by auto
      moreover have "distinct (map fst voc) \<longrightarrow> distinct (map fst (voc @ ((tok, nid) # ext)))"
        using True d by auto
      ultimately show ?thesis by (intro exI[of _ "(tok, nid) # ext"]) simp
    qed
  next
    case False
    then have st: "(if tok \<notin> fst ` set voc \<and> 0 < slots
                 then (dict_set tok nid voc, nid + 1, slots - 1)
                 else (voc, nid, slots)) = (voc, nid, slots)" by simp
    show ?thesis
    proof (cases "V \<le> int (length voc)")
      case True
      have "fst (build_vocab V (tok # toks) (voc, nid, slots)) = voc @ []"
        unfolding build_vocab.simps st Let_def using True by simp
      then show ?thesis by (intro exI[of _ "[]"]) simp
    next
      case go: False
      have "build_vocab V (tok # toks) (voc, nid, slots) = build_vocab V toks (voc, nid, slots)"
        unfolding build_vocab.simps st Let_def using go by simp
      then show ?thesis using Cons.IH [of voc nid slots] by simp
    qed
  qed
qed

lemma vocab_of_update: "vocab (s\<lparr>vocab := v, merges := m\<rparr>) = v"
  by simp

lemma train_vocab:
  "\<exists>toks. vocab (train self corpus) =
      fst (build_vocab (vocab_size self) toks
             (special_tokens, int (length special_tokens),
              vocab_size self - int (length special_tokens)))"
  unfolding train_def Let_def case_prod_beta
  by (rule exI, rule vocab_of_update)


lemma special_tokens_distinct: "distinct (map fst special_tokens)"
  by (simp add: special_tokens_def ascii_def EOS_CHAR_def EOP_CHAR_def EOT_CHAR_def)

lemma train_vocab_shape:
  "\<exists>ext. vocab (train self corpus) = special_tokens @ ext \<and>
         int (length ext) \<le> max (vocab_size self - 5) 0 \<and> (\<forall>kv \<in> set ext. 5 \<le> snd kv) \<and>
         distinct (map fst (special_tokens @ ext))"
proof -
  have len: "int (length special_tokens) = 5" by (simp add: special_tokens_def)
  obtain toks where t: "vocab (train self corpus) =
      fst (build_vocab (vocab_size self) toks (special_tokens, 5, vocab_size self - 5))"
    using train_vocab [of self corpus] unfolding len by blast
  from build_vocab_extends [of "vocab_size self" toks special_tokens 5 "vocab_size self - 5"]
  show ?thesis unfolding t using special_tokens_distinct by blast
qed

lemma map_of_dict_set: "map_of (dict_set k v d) = (map_of d)(k \<mapsto> v)"
  by (induction d) (auto simp: fun_eq_iff)

lemma map_of_fold_dict_set:
  "map_of (fold (\<lambda>(k, v) d. dict_set k v d) kvs d0) = map_of (rev kvs @ d0)"
proof (induction kvs arbitrary: d0)
  case Nil
  show ?case by simp
next
  case (Cons kv kvs)
  obtain k v where kv: "kv = (k, v)" by (cases kv)
  show ?case
    unfolding kv by (simp add: Cons.IH map_of_dict_set fun_eq_iff map_add_def split: option.splits)
qed

lemma map_of_dict_of: "map_of (dict_of kvs) = map_of (rev kvs)"
  by (simp add: dict_of_def map_of_fold_dict_set)

lemma id_to_token_special:
  assumes "\<forall>kv \<in> set ext. 5 \<le> snd kv" and "i \<in> {0, 1, 2, 3, 4}"
  shows "map_of (id_to_token (special_tokens @ ext)) i
           = map_of (map (\<lambda>(k, v). (v, k)) special_tokens) i"
proof -
  have "i \<notin> fst ` set (rev (map (\<lambda>(k, v). (v, k)) ext))"
    using assms by (auto simp: image_iff split: prod.splits)
  then have a: "map_of (rev (map (\<lambda>(k, v). (v, k)) ext)) i = None"
    by (simp add: map_of_eq_None_iff)
  have "map_of (rev (map (\<lambda>(k, v). (v, k)) special_tokens)) i
          = map_of (map (\<lambda>(k, v). (v, k)) special_tokens) i"
    using assms(2) by (auto simp: special_tokens_def)
  then show ?thesis
    by (simp add: id_to_token_def map_of_dict_of map_add_def a)
qed


lemma train_small_target:
  assumes "vocab_size self \<le> 5"
  shows "vocab (train self corpus) = special_tokens"
proof -
  from train_vocab_shape [of self corpus]
  obtain ext where e: "vocab (train self corpus) = special_tokens @ ext"
    and l: "int (length ext) \<le> max (vocab_size self - 5) 0" by blast
  from l assms have "ext = []" by simp
  then show ?thesis using e by simp
qed

text \<open>
  Claim C7, amended. Whatever the corpus, the target size and the tokenizer trained, the
  trained vocabulary has at most \<open>max V 5\<close> entries (so at most \<open>V\<close> when \<open>V\<close> is 5
  or more), its keys are distinct, its first five entries are the five special tokens
  with the ids 0 to 4, and the inverse table the decoder reads sends the ids 0 to 4 to
  the five special token strings.
\<close>

theorem trained_vocabulary_size_and_special_ids:
  "int (length (vocab (train self corpus))) \<le> max (vocab_size self) 5 \<and>
   distinct (map fst (vocab (train self corpus))) \<and>
   take 5 (vocab (train self corpus)) = special_tokens \<and>
   map (map_of (id_to_token (vocab (train self corpus)))) [0, 1, 2, 3, 4]
     = [Some (ascii ''<PAD>''), Some (ascii ''<UNK>''), Some [EOS_CHAR], Some [EOP_CHAR],
        Some [EOT_CHAR]]"
proof -
  from train_vocab_shape [of self corpus]
  obtain ext where e: "vocab (train self corpus) = special_tokens @ ext"
    and l: "int (length ext) \<le> max (vocab_size self - 5) 0"
    and v: "\<forall>kv \<in> set ext. 5 \<le> snd kv"
    and d: "distinct (map fst (special_tokens @ ext))" by blast
  have len: "length special_tokens = 5" by (simp add: special_tokens_def)
  have a: "int (length (vocab (train self corpus))) \<le> max (vocab_size self) 5"
    unfolding e using l by (simp add: len)
  have b: "distinct (map fst (vocab (train self corpus)))"
    unfolding e by (rule d)
  have c: "take 5 (vocab (train self corpus)) = special_tokens"
    unfolding e by (simp add: len)
  have i: "map_of (id_to_token (special_tokens @ ext)) j
             = map_of (map (\<lambda>(k, v). (v, k)) special_tokens) j" if "j \<in> {0, 1, 2, 3, 4}" for j
    using v that by (rule id_to_token_special)
  have f: "map (map_of (id_to_token (vocab (train self corpus)))) [0, 1, 2, 3, 4]
     = [Some (ascii ''<PAD>''), Some (ascii ''<UNK>''), Some [EOS_CHAR], Some [EOP_CHAR],
        Some [EOT_CHAR]]"
    unfolding e by (simp add: i) (simp add: special_tokens_def)
  show ?thesis by (intro conjI) (rule a, rule b, rule c, rule f)
qed

theorem trained_vocabulary_exceeds_small_target:
  "vocab (train (init_tokenizer 4) (ascii ''ab ab ab cd'')) = special_tokens \<and>
   vocab_size (init_tokenizer 4)
     < int (length (vocab (train (init_tokenizer 4) (ascii ''ab ab ab cd''))))"
proof -
  have s: "vocab_size (init_tokenizer 4) \<le> 5" by (simp add: init_tokenizer_def)
  have a: "vocab (train (init_tokenizer 4) (ascii ''ab ab ab cd'')) = special_tokens"
    using s by (rule train_small_target)
  show ?thesis unfolding a by (simp add: init_tokenizer_def special_tokens_def)
qed

section \<open>The sampler: the id it returns\<close>

lemma dict_set_subset: "set (dict_set k v d) \<subseteq> insert (k, v) (set d)"
  by (induction d) auto

lemma dict_get_in: "dict_get d k dflt = dflt \<or> (k, dict_get d k dflt) \<in> set d"
  by (auto simp: dict_get_def split: option.splits dest: map_of_SomeD)

lemma dict_get_nonneg:
  assumes "\<forall>kv \<in> set d. 0 \<le> snd kv"
  shows "0 \<le> dict_get d k (0::int)"
  using dict_get_in [of d k 0] assms by auto

lemma counter_add_nonneg:
  assumes "\<forall>kv \<in> set d. 0 \<le> snd kv" and "0 \<le> n"
  shows "\<forall>kv \<in> set (counter_add k n d). 0 \<le> snd kv"
proof
  fix kv assume "kv \<in> set (counter_add k n d)"
  then have "kv = (k, dict_get d k 0 + n) \<or> kv \<in> set d"
    using dict_set_subset [of k "dict_get d k 0 + n" d] by (auto simp: counter_add_def)
  then show "0 \<le> snd kv"
    using assms dict_get_nonneg [OF assms(1), of k] by auto
qed

lemma nested_add_nonneg:
  assumes "\<forall>kd \<in> set d. \<forall>kv \<in> set (snd kd). 0 \<le> snd kv"
  shows "\<forall>kd \<in> set (nested_add k w d). \<forall>kv \<in> set (snd kd). 0 \<le> snd kv"
proof
  fix kd assume "kd \<in> set (nested_add k w d)"
  then have c: "kd = (k, counter_add w 1 (dict_get d k [])) \<or> kd \<in> set d"
    using dict_set_subset [of k "counter_add w 1 (dict_get d k [])" d]
    by (auto simp: nested_add_def)
  have "\<forall>kv \<in> set (dict_get d k []). 0 \<le> snd kv"
  proof (cases "dict_get d k [] = []")
    case True
    then show ?thesis by simp
  next
    case False
    then have "(k, dict_get d k []) \<in> set d" using dict_get_in [of d k "[]"] by simp
    from assms [rule_format, OF this] show ?thesis by simp
  qed
  then have "\<forall>kv \<in> set (counter_add w 1 (dict_get d k [])). 0 \<le> snd kv"
    by (rule counter_add_nonneg) simp
  with c assms show "\<forall>kv \<in> set (snd kd). 0 \<le> snd kv" by auto
qed

lemma fold_invariant:
  assumes "P s" and "\<And>x s. P s \<Longrightarrow> P (f x s)"
  shows "P (fold f xs s)"
  using assms(1) by (induction xs arbitrary: s) (auto intro: assms(2))

lemma lm_train_tables:
  "unigram_counts (lm_train self ids)
     = fst (fold (\<lambda>t (uc, tu). (counter_add t 1 uc, tu + 1)) ids ([], 0::int))"
  "total_unigrams (lm_train self ids)
     = snd (fold (\<lambda>t (uc, tu). (counter_add t 1 uc, tu + 1)) ids ([], 0::int))"
  "bigram_counts (lm_train self ids)
     = fst (fold (\<lambda>(w1, w2) (bc, tb). (nested_add w1 w2 bc, counter_add w1 1 tb))
              (zip ids (tl ids)) ([], []))"
  "total_bigrams (lm_train self ids)
     = snd (fold (\<lambda>(w1, w2) (bc, tb). (nested_add w1 w2 bc, counter_add w1 1 tb))
              (zip ids (tl ids)) ([], []))"
  "trigram_counts (lm_train self ids)
     = fst (fold (\<lambda>(w1, w2, w3) (tc, tt). (nested_add (w1, w2) w3 tc, counter_add (w1, w2) 1 tt))
              (zip ids (zip (tl ids) (tl (tl ids)))) ([], []))"
  "total_trigrams (lm_train self ids)
     = snd (fold (\<lambda>(w1, w2, w3) (tc, tt). (nested_add (w1, w2) w3 tc, counter_add (w1, w2) 1 tt))
              (zip ids (zip (tl ids) (tl (tl ids)))) ([], []))"
  by (simp_all add: lm_train_def Let_def case_prod_beta)

lemma lm_train_nonneg:
  "\<forall>kv \<in> set (unigram_counts (lm_train self ids)). 0 \<le> snd kv"
  "0 \<le> total_unigrams (lm_train self ids)"
  "\<forall>kd \<in> set (bigram_counts (lm_train self ids)). \<forall>kv \<in> set (snd kd). 0 \<le> snd kv"
  "\<forall>kv \<in> set (total_bigrams (lm_train self ids)). 0 \<le> snd kv"
  "\<forall>kd \<in> set (trigram_counts (lm_train self ids)). \<forall>kv \<in> set (snd kd). 0 \<le> snd kv"
  "\<forall>kv \<in> set (total_trigrams (lm_train self ids)). 0 \<le> snd kv"
proof -
  let ?P1 = "\<lambda>s :: (int, int) dict \<times> int. (\<forall>kv \<in> set (fst s). 0 \<le> snd kv) \<and> 0 \<le> snd s"
  have u: "?P1 (fold (\<lambda>t (uc, tu). (counter_add t 1 uc, tu + 1)) ids ([], 0::int))"
  proof (rule fold_invariant)
    show "?P1 ([], 0)" by simp
  next
    fix x :: int and s :: "(int, int) dict \<times> int"
    assume p: "?P1 s"
    from p have 1: "\<forall>kv \<in> set (counter_add x 1 (fst s)). 0 \<le> snd kv"
      by (intro counter_add_nonneg) simp_all
    from 1 p show "?P1 ((\<lambda>t (uc, tu). (counter_add t 1 uc, tu + 1)) x s)"
      by (simp add: case_prod_beta)
  qed
  let ?P2 = "\<lambda>s :: (int, (int, int) dict) dict \<times> (int, int) dict.
               (\<forall>kd \<in> set (fst s). \<forall>kv \<in> set (snd kd). 0 \<le> snd kv) \<and>
               (\<forall>kv \<in> set (snd s). 0 \<le> snd kv)"
  have b: "?P2 (fold (\<lambda>(w1, w2) (bc, tb). (nested_add w1 w2 bc, counter_add w1 1 tb))
              (zip ids (tl ids)) ([], []))"
  proof (rule fold_invariant)
    show "?P2 ([], [])" by simp
  next
    fix x :: "int \<times> int" and s :: "(int, (int, int) dict) dict \<times> (int, int) dict"
    assume p: "?P2 s"
    from p have 1: "\<forall>kd \<in> set (nested_add (fst x) (snd x) (fst s)). \<forall>kv \<in> set (snd kd). 0 \<le> snd kv"
      by (intro nested_add_nonneg) simp
    from p have 2: "\<forall>kv \<in> set (counter_add (fst x) 1 (snd s)). 0 \<le> snd kv"
      by (intro counter_add_nonneg) simp_all
    from 1 2 show "?P2 ((\<lambda>(w1, w2) (bc, tb). (nested_add w1 w2 bc, counter_add w1 1 tb)) x s)"
      by (simp add: case_prod_beta)
  qed
  let ?P3 = "\<lambda>s :: (int \<times> int, (int, int) dict) dict \<times> (int \<times> int, int) dict.
               (\<forall>kd \<in> set (fst s). \<forall>kv \<in> set (snd kd). 0 \<le> snd kv) \<and>
               (\<forall>kv \<in> set (snd s). 0 \<le> snd kv)"
  have t: "?P3 (fold (\<lambda>(w1, w2, w3) (tc, tt). (nested_add (w1, w2) w3 tc, counter_add (w1, w2) 1 tt))
              (zip ids (zip (tl ids) (tl (tl ids)))) ([], []))"
  proof (rule fold_invariant)
    show "?P3 ([], [])" by simp
  next
    fix x :: "int \<times> int \<times> int" and s :: "(int \<times> int, (int, int) dict) dict \<times> (int \<times> int, int) dict"
    assume p: "?P3 s"
    from p have 1: "\<forall>kd \<in> set (nested_add (fst x, fst (snd x)) (snd (snd x)) (fst s)).
                      \<forall>kv \<in> set (snd kd). 0 \<le> snd kv"
      by (intro nested_add_nonneg) simp
    from p have 2: "\<forall>kv \<in> set (counter_add (fst x, fst (snd x)) 1 (snd s)). 0 \<le> snd kv"
      by (intro counter_add_nonneg) simp_all
    from 1 2 show "?P3 ((\<lambda>(w1, w2, w3) (tc, tt).
                     (nested_add (w1, w2) w3 tc, counter_add (w1, w2) 1 tt)) x s)"
      by (simp add: case_prod_beta)
  qed
  show "\<forall>kv \<in> set (unigram_counts (lm_train self ids)). 0 \<le> snd kv"
    unfolding lm_train_tables using u by blast
  show "0 \<le> total_unigrams (lm_train self ids)"
    unfolding lm_train_tables using u by blast
  show "\<forall>kd \<in> set (bigram_counts (lm_train self ids)). \<forall>kv \<in> set (snd kd). 0 \<le> snd kv"
    unfolding lm_train_tables using b by blast
  show "\<forall>kv \<in> set (total_bigrams (lm_train self ids)). 0 \<le> snd kv"
    unfolding lm_train_tables using b by blast
  show "\<forall>kd \<in> set (trigram_counts (lm_train self ids)). \<forall>kv \<in> set (snd kd). 0 \<le> snd kv"
    unfolding lm_train_tables using t by blast
  show "\<forall>kv \<in> set (total_trigrams (lm_train self ids)). 0 \<le> snd kv"
    unfolding lm_train_tables using t by blast
qed


lemma dict_get_inner_nonneg:
  assumes "\<forall>kd \<in> set d. \<forall>kv \<in> set (snd kd). 0 \<le> snd kv"
  shows "\<forall>kv \<in> set (dict_get d k []). 0 \<le> snd kv"
proof (cases "dict_get d k [] = []")
  case True
  then show ?thesis by simp
next
  case False
  then have "(k, dict_get d k []) \<in> set d" using dict_get_in [of d k "[]"] by simp
  from assms [rule_format, OF this] show ?thesis by simp
qed

lemma interpolated_prob_nonneg:
  assumes u: "\<forall>kv \<in> set (unigram_counts self). 0 \<le> snd kv" and tu: "0 \<le> total_unigrams self"
    and b: "\<forall>kd \<in> set (bigram_counts self). \<forall>kv \<in> set (snd kd). 0 \<le> snd kv"
    and tb: "\<forall>kv \<in> set (total_bigrams self). 0 \<le> snd kv"
    and t: "\<forall>kd \<in> set (trigram_counts self). \<forall>kv \<in> set (snd kd). 0 \<le> snd kv"
    and tt: "\<forall>kv \<in> set (total_trigrams self). 0 \<le> snd kv"
  shows "0 \<le> get_interpolated_prob self w1 w2 w3"
proof -
  have 1: "0 \<le> p1 self w3"
    using dict_get_nonneg [OF u, of w3] tu by (simp add: p1_def)
  have 2: "0 \<le> p2 self w2 w3"
    using dict_get_nonneg [OF dict_get_inner_nonneg [OF b], of w2 w3] dict_get_nonneg [OF tb, of w2]
    by (simp add: p2_def Let_def)
  have 3: "0 \<le> p3 self w1 w2 w3"
    using dict_get_nonneg [OF dict_get_inner_nonneg [OF t], of "(w1, w2)" w3]
      dict_get_nonneg [OF tt, of "(w1, w2)"]
    by (simp add: p3_def Let_def)
  show ?thesis
    using 1 2 3 by (simp add: get_interpolated_prob_def lambda1_def lambda2_def lambda3_def)
qed

lemma random_choice_Inr: "random_choice draw a p = Inr x \<Longrightarrow> x \<in> set a"
  by (auto simp: random_choice_def split: if_splits)

lemma candidates_no_pad_unk: "x \<in> set (candidates self c) \<Longrightarrow> x \<noteq> pad_id \<and> x \<noteq> unk_id"
  by (auto simp: candidates_def Let_def)

lemma generate_next_token_not_pad_unk:
  assumes "generate_next_token draw self c = Inr x"
  shows "x \<noteq> pad_id \<and> x \<noteq> unk_id"
proof (cases "candidates self c = []")
  case True
  with assms have "x = eos_id" by (simp add: generate_next_token_def Let_def)
  then show ?thesis by (simp add: eos_id_def pad_id_def unk_id_def)
next
  case False
  with assms have "x \<in> set (candidates self c)"
    by (auto simp: generate_next_token_def Let_def dest: random_choice_Inr)
  then show ?thesis by (rule candidates_no_pad_unk)
qed

lemma sum_list_div: "sum_list (map (\<lambda>p. p / s) ps) = sum_list ps / (s::real)"
  by (induction ps) (simp_all add: add_divide_distrib)

lemma random_choice_returns:
  assumes "a \<noteq> []" and "length p = length a" and "\<forall>x \<in> set p. 0 \<le> x" and "sum_list p = 1"
    and "draw p < length p"
  shows "random_choice draw a p = Inr (a ! draw p)"
  using assms by (auto simp: random_choice_def list_ex_iff)

lemma generate_next_token_returns:
  assumes nn: "\<forall>t. 0 \<le> get_interpolated_prob self (fst c) (snd c) t"
    and d: "\<forall>p. p \<noteq> [] \<longrightarrow> draw p < length p"
  shows "\<exists>x. generate_next_token draw self c = Inr x"
proof (cases "candidates self c = []")
  case True
  then show ?thesis by (simp add: generate_next_token_def Let_def)
next
  case False
  define tokens where "tokens = candidates self c"
  define probs where "probs = map (\<lambda>t. get_interpolated_prob self (fst c) (snd c) t) tokens"
  define s where "s = sum_list probs"
  define probs' where "probs' = (if s = 0 then replicate (length tokens) (1 / real (length tokens))
                                 else map (\<lambda>p. p / s) probs)"
  have g: "generate_next_token draw self c = random_choice draw tokens probs'"
    using False
    by (simp add: generate_next_token_def Let_def tokens_def probs_def s_def probs'_def)
  have ne: "tokens \<noteq> []" using False by (simp add: tokens_def)
  have pn: "\<forall>x \<in> set probs. 0 \<le> x" using nn by (auto simp: probs_def)
  then have s0: "0 \<le> s" unfolding s_def by (intro sum_list_nonneg) blast
  have len: "length probs' = length tokens" by (simp add: probs'_def probs_def)
  have nonneg: "\<forall>x \<in> set probs'. 0 \<le> x"
  proof (cases "s = 0")
    case True
    then show ?thesis by (simp add: probs'_def)
  next
    case nz: False
    with s0 have "0 < s" by simp
    with pn have "\<forall>x \<in> set (map (\<lambda>p. p / s) probs). 0 \<le> x" by auto
    with nz show ?thesis by (simp add: probs'_def)
  qed
  have one: "sum_list probs' = 1"
  proof (cases "s = 0")
    case True
    then show ?thesis using ne by (simp add: probs'_def sum_list_replicate)
  next
    case nz: False
    have "sum_list (map (\<lambda>p. p / s) probs) = s / s" unfolding s_def by (rule sum_list_div)
    with nz show ?thesis by (simp add: probs'_def)
  qed
  have ne': "probs' \<noteq> []" using len ne by auto
  have dr: "draw probs' < length probs'" using d ne' by blast
  have "random_choice draw tokens probs' = Inr (tokens ! draw probs')"
    using ne len nonneg one dr by (rule random_choice_returns)
  then show ?thesis unfolding g by blast
qed

text \<open>
  Claim C3. Whatever the model, the context and the random source, an id returned by
  \<open>generate_next_token\<close> is neither PAD nor UNK, and when no candidate is left after
  PAD and UNK are removed the call returns the end-of-sentence id 2. For a model built
  by \<open>train\<close> and a random source that picks an index of the vector it is given, the
  call does return an id and raises nothing.
\<close>

theorem next_token_is_never_pad_or_unk:
  "(\<forall>x. generate_next_token draw self c = Inr x \<longrightarrow> x \<noteq> pad_id \<and> x \<noteq> unk_id) \<and>
   (candidates self c = [] \<longrightarrow> generate_next_token draw self c = Inr eos_id) \<and>
   ((\<forall>p. p \<noteq> [] \<longrightarrow> draw p < length p) \<longrightarrow>
      (\<exists>x. generate_next_token draw (lm_train self ids) c = Inr x \<and> x \<noteq> pad_id \<and> x \<noteq> unk_id))"
proof -
  have a: "\<forall>x. generate_next_token draw self c = Inr x \<longrightarrow> x \<noteq> pad_id \<and> x \<noteq> unk_id"
    using generate_next_token_not_pad_unk by blast
  have b: "candidates self c = [] \<longrightarrow> generate_next_token draw self c = Inr eos_id"
    by (simp add: generate_next_token_def Let_def)
  have c: "\<exists>x. generate_next_token draw (lm_train self ids) c = Inr x \<and> x \<noteq> pad_id \<and> x \<noteq> unk_id"
    if d: "\<forall>p. p \<noteq> [] \<longrightarrow> draw p < length p"
  proof -
    have nn: "\<forall>t. 0 \<le> get_interpolated_prob (lm_train self ids) (fst c) (snd c) t"
      by (intro allI interpolated_prob_nonneg lm_train_nonneg)
    from generate_next_token_returns [OF nn d]
    obtain x where x: "generate_next_token draw (lm_train self ids) c = Inr x" ..
    from x have "x \<noteq> pad_id \<and> x \<noteq> unk_id" by (rule generate_next_token_not_pad_unk)
    with x show ?thesis by blast
  qed
  from c have c': "(\<forall>p. p \<noteq> [] \<longrightarrow> draw p < length p) \<longrightarrow>
      (\<exists>x. generate_next_token draw (lm_train self ids) c = Inr x \<and> x \<noteq> pad_id \<and> x \<noteq> unk_id)"
    by blast
  show ?thesis by (intro conjI) (rule a, rule b, rule c')
qed

theorem next_token_is_never_pad_or_unk_witness:
  "generate_next_token (\<lambda>p. 0) init_model (5, 6) = Inr eos_id \<and>
   (\<exists>x. generate_next_token (\<lambda>p. 0) (lm_train init_model [5, 6, 5]) (5, 6) = Inr x \<and>
        x \<noteq> pad_id \<and> x \<noteq> unk_id)"
proof -
  note t = next_token_is_never_pad_or_unk
             [where draw = "\<lambda>p. 0" and self = init_model and c = "(5, 6)" and ids = "[5, 6, 5]"]
  have e: "candidates init_model (5, 6) = []"
    by (simp add: candidates_def init_model_def most_common_n_def most_common_def Let_def)
  have d: "\<forall>p :: real list. p \<noteq> [] \<longrightarrow> (0::nat) < length p" by simp
  from t e have a: "generate_next_token (\<lambda>p. 0) init_model (5, 6) = Inr eos_id" by blast
  from t d have b: "\<exists>x. generate_next_token (\<lambda>p. 0) (lm_train init_model [5, 6, 5]) (5, 6) = Inr x \<and>
        x \<noteq> pad_id \<and> x \<noteq> unk_id" by blast
  show ?thesis by (intro conjI) (rule a, rule b)
qed

section \<open>The interpolated probability\<close>

lemma elem_le_sum_list:
  "\<forall>y \<in> set xs. (0::int) \<le> y \<Longrightarrow> x \<in> set xs \<Longrightarrow> x \<le> sum_list xs"
proof (induction xs)
  case Nil
  then show ?case by simp
next
  case (Cons a xs)
  then have s: "0 \<le> sum_list xs" by (intro sum_list_nonneg) simp
  show ?case
  proof (cases "x = a")
    case True
    with s show ?thesis by simp
  next
    case False
    with Cons have "x \<le> sum_list xs" by simp
    moreover from Cons.prems have "0 \<le> a" by simp
    ultimately show ?thesis by simp
  qed
qed

lemma dict_get_le_sum:
  assumes "\<forall>kv \<in> set d. 0 \<le> snd kv"
  shows "dict_get d k (0::int) \<le> sum_list (map snd d)"
proof -
  have n: "\<forall>y \<in> set (map snd d). 0 \<le> y" using assms by simp
  show ?thesis
  proof (cases "(k, dict_get d k 0) \<in> set d")
    case True
    then have "dict_get d k 0 \<in> set (map snd d)" by force
    with n show ?thesis by (rule elem_le_sum_list)
  next
    case False
    then have "dict_get d k 0 = 0" using dict_get_in [of d k 0] by simp
    moreover have "0 \<le> sum_list (map snd d)" using n by (intro sum_list_nonneg) blast
    ultimately show ?thesis by simp
  qed
qed

lemma quotient_range:
  assumes "0 \<le> a" and "a \<le> b"
  shows "0 \<le> (if b = 0 then 0 else real_of_int a / real_of_int b) \<and>
         (if b = 0 then 0 else real_of_int a / real_of_int b) \<le> 1"
  using assms by (simp add: divide_le_eq_1)

lemma weighted_sum_range:
  assumes "0 \<le> x \<and> x \<le> 1" and "0 \<le> y \<and> y \<le> 1" and "0 \<le> z \<and> z \<le> (1::real)"
  shows "0 \<le> lambda1 * x + lambda2 * y + lambda3 * z \<and> lambda1 * x + lambda2 * y + lambda3 * z \<le> 1"
  using assms by (simp add: lambda1_def lambda2_def lambda3_def)

text \<open>
  Claim C4. Let the counts of the three tables be non-negative, the total of the
  unigrams be the sum of the unigram counts and, for every context, the bigram total and
  the trigram total be the sum of the counts stored under that context. Then the
  interpolated probability is \<open>lambda1 * P(w3) + lambda2 * P(w3 | w2) +
  lambda3 * P(w3 | w1, w2)\<close>, each probability being the count divided by the total
  of its context, or 0 when that total is 0; the three weights sum to 1; and the result
  lies between 0 and 1.
\<close>

theorem interpolated_probability_formula_and_range:
  assumes "\<forall>kv \<in> set (unigram_counts self). 0 \<le> snd kv"
    and "\<forall>kd \<in> set (bigram_counts self). \<forall>kv \<in> set (snd kd). 0 \<le> snd kv"
    and "\<forall>kd \<in> set (trigram_counts self). \<forall>kv \<in> set (snd kd). 0 \<le> snd kv"
    and "total_unigrams self = sum_list (map snd (unigram_counts self))"
    and "\<forall>w. dict_get (total_bigrams self) w 0
              = sum_list (map snd (dict_get (bigram_counts self) w []))"
    and "\<forall>c. dict_get (total_trigrams self) c 0
              = sum_list (map snd (dict_get (trigram_counts self) c []))"
  shows "get_interpolated_prob self w1 w2 w3 =
           lambda1 * (if total_unigrams self = 0 then 0
                      else real_of_int (dict_get (unigram_counts self) w3 0)
                             / real_of_int (total_unigrams self)) +
           lambda2 * (if dict_get (total_bigrams self) w2 0 = 0 then 0
                      else real_of_int (dict_get (dict_get (bigram_counts self) w2 []) w3 0)
                             / real_of_int (dict_get (total_bigrams self) w2 0)) +
           lambda3 * (if dict_get (total_trigrams self) (w1, w2) 0 = 0 then 0
                      else real_of_int (dict_get (dict_get (trigram_counts self) (w1, w2) []) w3 0)
                             / real_of_int (dict_get (total_trigrams self) (w1, w2) 0)) \<and>
         lambda1 + lambda2 + lambda3 = 1 \<and>
         0 \<le> get_interpolated_prob self w1 w2 w3 \<and>
         get_interpolated_prob self w1 w2 w3 \<le> 1"
proof -
  let ?x = "if total_unigrams self = 0 then 0
            else real_of_int (dict_get (unigram_counts self) w3 0)
                   / real_of_int (total_unigrams self)"
  let ?y = "if dict_get (total_bigrams self) w2 0 = 0 then 0
            else real_of_int (dict_get (dict_get (bigram_counts self) w2 []) w3 0)
                   / real_of_int (dict_get (total_bigrams self) w2 0)"
  let ?z = "if dict_get (total_trigrams self) (w1, w2) 0 = 0 then 0
            else real_of_int (dict_get (dict_get (trigram_counts self) (w1, w2) []) w3 0)
                   / real_of_int (dict_get (total_trigrams self) (w1, w2) 0)"
  have f: "get_interpolated_prob self w1 w2 w3 = lambda1 * ?x + lambda2 * ?y + lambda3 * ?z"
    by (simp add: get_interpolated_prob_def p1_def p2_def p3_def Let_def)
  have w: "lambda1 + lambda2 + lambda3 = 1"
    by (simp add: lambda1_def lambda2_def lambda3_def)
  have bn: "\<forall>kv \<in> set (dict_get (bigram_counts self) w2 []). 0 \<le> snd kv"
    using assms(2) by (rule dict_get_inner_nonneg)
  have tn: "\<forall>kv \<in> set (dict_get (trigram_counts self) (w1, w2) []). 0 \<le> snd kv"
    using assms(3) by (rule dict_get_inner_nonneg)
  have x: "0 \<le> ?x \<and> ?x \<le> 1"
  proof (rule quotient_range)
    show "0 \<le> dict_get (unigram_counts self) w3 0" using assms(1) by (rule dict_get_nonneg)
    show "dict_get (unigram_counts self) w3 0 \<le> total_unigrams self"
      unfolding assms(4) using assms(1) by (rule dict_get_le_sum)
  qed
  have y: "0 \<le> ?y \<and> ?y \<le> 1"
  proof (rule quotient_range)
    show "0 \<le> dict_get (dict_get (bigram_counts self) w2 []) w3 0"
      using bn by (rule dict_get_nonneg)
    have "dict_get (dict_get (bigram_counts self) w2 []) w3 0
            \<le> sum_list (map snd (dict_get (bigram_counts self) w2 []))"
      using bn by (rule dict_get_le_sum)
    then show "dict_get (dict_get (bigram_counts self) w2 []) w3 0
            \<le> dict_get (total_bigrams self) w2 0"
      using assms(5) by simp
  qed
  have z: "0 \<le> ?z \<and> ?z \<le> 1"
  proof (rule quotient_range)
    show "0 \<le> dict_get (dict_get (trigram_counts self) (w1, w2) []) w3 0"
      using tn by (rule dict_get_nonneg)
    have "dict_get (dict_get (trigram_counts self) (w1, w2) []) w3 0
            \<le> sum_list (map snd (dict_get (trigram_counts self) (w1, w2) []))"
      using tn by (rule dict_get_le_sum)
    then show "dict_get (dict_get (trigram_counts self) (w1, w2) []) w3 0
            \<le> dict_get (total_trigrams self) (w1, w2) 0"
      using assms(6) by simp
  qed
  from weighted_sum_range [OF x y z]
  have r: "0 \<le> get_interpolated_prob self w1 w2 w3 \<and> get_interpolated_prob self w1 w2 w3 \<le> 1"
    unfolding f .
  show ?thesis by (intro conjI) (rule f, rule w, rule r [THEN conjunct1], rule r [THEN conjunct2])
qed

theorem interpolated_probability_formula_and_range_witness:
  "get_interpolated_prob (lm_train init_model [5, 6, 5]) 5 6 5 = 29 / 30 \<and>
   get_interpolated_prob (lm_train init_model [5, 6, 5]) 7 6 5 = 1 / 15 + 3 / 10 \<and>
   0 \<le> get_interpolated_prob (lm_train init_model [5, 6, 5]) 5 6 5 \<and>
   get_interpolated_prob (lm_train init_model [5, 6, 5]) 5 6 5 \<le> 1"
proof -
  let ?M = "\<lparr>unigram_counts = [(5, 2), (6, 1)], bigram_counts = [(5, [(6, 1)]), (6, [(5, 1)])],
             trigram_counts = [((5, 6), [(5, 1)])], total_unigrams = 3,
             total_bigrams = [(5, 1), (6, 1)], total_trigrams = [((5, 6), 1)]\<rparr>"
  have m: "lm_train init_model [5, 6, 5] = ?M"
    by (simp add: lm_train_def init_model_def counter_add_def nested_add_def dict_get_def Let_def)
  have h1: "\<forall>kv \<in> set (unigram_counts ?M). 0 \<le> snd kv" by simp
  have h2: "\<forall>kd \<in> set (bigram_counts ?M). \<forall>kv \<in> set (snd kd). 0 \<le> snd kv" by simp
  have h3: "\<forall>kd \<in> set (trigram_counts ?M). \<forall>kv \<in> set (snd kd). 0 \<le> snd kv" by simp
  have h4: "total_unigrams ?M = sum_list (map snd (unigram_counts ?M))" by simp
  have h5: "\<forall>w. dict_get (total_bigrams ?M) w 0
              = sum_list (map snd (dict_get (bigram_counts ?M) w []))"
    by (simp add: dict_get_def)
  have h6: "\<forall>c. dict_get (total_trigrams ?M) c 0
              = sum_list (map snd (dict_get (trigram_counts ?M) c []))"
    by (simp add: dict_get_def)
  note t = interpolated_probability_formula_and_range
             [where self = "?M" and ?w1.0 = 5 and ?w2.0 = 6 and ?w3.0 = 5, OF h1 h2 h3 h4 h5 h6]
  note t' = interpolated_probability_formula_and_range
             [where self = "?M" and ?w1.0 = 7 and ?w2.0 = 6 and ?w3.0 = 5, OF h1 h2 h3 h4 h5 h6]
  from t [THEN conjunct1] have a: "get_interpolated_prob ?M 5 6 5 = 29 / 30"
    by (simp add: dict_get_def lambda1_def lambda2_def lambda3_def)
  from t' [THEN conjunct1] have a': "get_interpolated_prob ?M 7 6 5 = 1 / 15 + 3 / 10"
    by (simp add: dict_get_def lambda1_def lambda2_def lambda3_def)
  from t have b: "0 \<le> get_interpolated_prob ?M 5 6 5" by blast
  from t have c: "get_interpolated_prob ?M 5 6 5 \<le> 1" by blast
  show ?thesis unfolding m by (intro conjI) (rule a, rule a', rule b, rule c)
qed

section \<open>The ids that encode returns\<close>

lemma unk_default: "dict_get special_tokens (ascii ''<UNK>'') 1 = 1"
  by (simp add: dict_get_def special_tokens_def ascii_def)

lemma one_is_special: "(1::int) \<in> snd ` set special_tokens"
  by (simp add: special_tokens_def)

lemma encode_ids:
  assumes "i \<in> set (encode self text0)"
  shows "i \<in> snd ` set special_tokens \<or> i \<in> snd ` set (vocab self)"
proof -
  from assms obtain w0 where
    i: "i \<in> set (let w = dict_get legacy_special_aliases w0 w0
                  in case map_of special_tokens w of
                       Some j \<Rightarrow> [j]
                     | None \<Rightarrow> map (\<lambda>tok. dict_get (vocab self) tok
                                       (dict_get special_tokens (ascii ''<UNK>'') 1))
                                 (encode_word self w))"
    unfolding encode_def by auto
  define w where "w = dict_get legacy_special_aliases w0 w0"
  show ?thesis
  proof (cases "map_of special_tokens w")
    case (Some j)
    with i have "i = j" by (simp add: w_def Let_def)
    moreover from Some have "(w, j) \<in> set special_tokens" by (rule map_of_SomeD)
    ultimately show ?thesis by force
  next
    case None
    with i obtain tok where "i = dict_get (vocab self) tok 1"
      by (auto simp: w_def Let_def unk_default)
    then show ?thesis
      using dict_get_in [of "vocab self" tok 1] one_is_special by force
  qed
qed

lemma id_to_token_defined:
  assumes "i \<in> snd ` set voc"
  shows "\<exists>tok. map_of (id_to_token voc) i = Some tok"
proof -
  from assms have "i \<in> fst ` set (rev (map (\<lambda>(k, v). (v, k)) voc))" by force
  then have "map_of (rev (map (\<lambda>(k, v). (v, k)) voc)) i \<noteq> None"
    by (simp only: map_of_eq_None_iff not_not)
  then show ?thesis by (simp add: id_to_token_def map_of_dict_of)
qed


text \<open>
  Claim C9, amended. For every tokenizer state and every input string, each id returned
  by \<open>encode\<close> is a value of the special-token table or a value of the vocabulary.
  When the vocabulary contains the special-token table, as the vocabulary of every
  trained tokenizer does, the inverse table that \<open>decode\<close> builds has an entry for
  each of these ids, so \<open>decode\<close> never takes its default for an id that \<open>encode\<close>
  returned.
\<close>

theorem encode_ids_are_known_ids:
  "(\<forall>i \<in> set (encode self text0).
      i \<in> snd ` set special_tokens \<or> i \<in> snd ` set (vocab self)) \<and>
   (set special_tokens \<subseteq> set (vocab self) \<longrightarrow>
      (\<forall>i \<in> set (encode self text0). \<exists>tok. map_of (id_to_token (vocab self)) i = Some tok)) \<and>
   (\<forall>i \<in> set (encode (train self corpus) text0).
      \<exists>tok. map_of (id_to_token (vocab (train self corpus))) i = Some tok)"
proof -
  have a: "\<forall>i \<in> set (encode self text0).
      i \<in> snd ` set special_tokens \<or> i \<in> snd ` set (vocab self)"
    using encode_ids by blast
  have b: "\<forall>i \<in> set (encode s text0). \<exists>tok. map_of (id_to_token (vocab s)) i = Some tok"
    if sub: "set special_tokens \<subseteq> set (vocab s)" for s
  proof
    fix i assume "i \<in> set (encode s text0)"
    then have "i \<in> snd ` set special_tokens \<or> i \<in> snd ` set (vocab s)" by (rule encode_ids)
    with sub have "i \<in> snd ` set (vocab s)" by auto
    then show "\<exists>tok. map_of (id_to_token (vocab s)) i = Some tok" by (rule id_to_token_defined)
  qed
  have t: "set special_tokens \<subseteq> set (vocab (train self corpus))"
    using train_vocab_shape [of self corpus] by auto
  from b [of self] have b': "set special_tokens \<subseteq> set (vocab self) \<longrightarrow>
      (\<forall>i \<in> set (encode self text0). \<exists>tok. map_of (id_to_token (vocab self)) i = Some tok)"
    by blast
  show ?thesis by (intro conjI) (rule a, rule b', rule b [OF t])
qed

theorem encode_ids_are_known_ids_witness:
  "encode \<lparr>vocab_size = 250, vocab = special_tokens @ [([97], 5), (EOW, 6)], merges = []\<rparr>
     (ascii ''a b'') = [5, 6, 1, 6] \<and>
   (\<exists>tok. map_of (id_to_token (special_tokens @ [([97], 5), (EOW, 6)])) 1 = Some tok) \<and>
   (\<exists>tok. map_of (id_to_token (special_tokens @ [([97], 5), (EOW, 6)])) 6 = Some tok)"
proof -
  let ?T = "\<lparr>vocab_size = 250, vocab = special_tokens @ [([97], 5), (EOW, 6)], merges = []\<rparr>"
  note t = encode_ids_are_known_ids [where self = "?T" and ?text0.0 = "ascii ''a b''"]
  have e: "encode ?T (ascii ''a b'') = [5, 6, 1, 6]"
    by (simp add: encode_def separate_specials_def legacy_special_aliases_def special_tokens_def
          ascii_def str_split_def SPACE_def EOW_def encode_word_def dict_get_def is_space_def
          EOS_CHAR_def EOP_CHAR_def EOT_CHAR_def Let_def)
  have s: "set special_tokens \<subseteq> set (vocab ?T)" by auto
  from t s have "\<forall>i \<in> set (encode ?T (ascii ''a b'')). \<exists>tok. map_of (id_to_token (vocab ?T)) i = Some tok"
    by blast
  then have b: "\<forall>i \<in> set [5, 6, 1, 6 :: int].
                  \<exists>tok. map_of (id_to_token (special_tokens @ [([97], 5), (EOW, 6)])) i = Some tok"
    unfolding e by simp
  from b have b1: "\<exists>tok. map_of (id_to_token (special_tokens @ [([97], 5), (EOW, 6)])) 1 = Some tok"
    by simp
  from b have b6: "\<exists>tok. map_of (id_to_token (special_tokens @ [([97], 5), (EOW, 6)])) 6 = Some tok"
    by simp
  show ?thesis by (intro conjI) (rule e, rule b1, rule b6)
qed

theorem fresh_tokenizer_encodes_to_absent_id:
  "encode (init_tokenizer 250) (ascii ''a'') = [1, 1] \<and>
   map_of (id_to_token (vocab (init_tokenizer 250))) 1 = None \<and>
   decode (init_tokenizer 250) (encode (init_tokenizer 250) (ascii ''a'')) = []"
proof -
  have e: "encode (init_tokenizer 250) (ascii ''a'') = [1, 1]"
    by (simp add: encode_def separate_specials_def legacy_special_aliases_def special_tokens_def
          ascii_def str_split_def SPACE_def EOW_def encode_word_def dict_get_def is_space_def
          EOS_CHAR_def EOP_CHAR_def EOT_CHAR_def Let_def init_tokenizer_def)
  have m: "map_of (id_to_token (vocab (init_tokenizer 250))) 1 = None"
    by (simp add: init_tokenizer_def id_to_token_def dict_of_def)
  have d: "decode (init_tokenizer 250) [1, 1] = []"
    by (simp add: decode_def init_tokenizer_def id_to_token_def dict_of_def dict_get_def Let_def
          EOW_def ascii_def SPACE_def str_split_def)
  show ?thesis unfolding e by (intro conjI) (rule refl, rule m, rule d)
qed

end
